theory Spec2Isabelle
  imports Complex_Main
begin

section \<open>Phase-sector classification and boundary extraction\<close>

text \<open>
  A shallow embedding of the analysis scripts of the phase-bifurcation repository.
  Python and numpy floats are modelled by the real numbers, and the infinities are left
  out. The means, standard deviations and midpoints are the exact ones; the arithmetic
  of the crossing search takes its rounding as a parameter, so that it can be read
  exactly or in binary64. Where the source tests for NaN the value is a \<open>pyfloat\<close>,
  which is a real or NaN. A Python exception is a value of \<open>py_error\<close> on the left
  of a sum.
\<close>

datatype py_error = IndexError | ValueError | RuntimeError | IntegrationError

datatype pyfloat = Fin real | NaN

subsection \<open>compute\_mphi\_crit.py: find\_mphi\_crit\<close>

text \<open>
  \<^verbatim>\<open>idx_sort = np.argsort(mphi_vals)\<close> is a parameter of the model: \<open>is_argsort\<close> says
  what numpy promises of it, the indices of the array, each once, in an ascending order
  of their values. The default kind of sort is not stable, so the order of the indices
  of equal values is left open. Two functions of this kind are \<open>stable_argsort\<close>, which
  keeps the indices of equal values in their order, and \<open>reversed_argsort\<close>, which
  reverses them.
\<close>

definition is_argsort :: "(real list \<Rightarrow> nat list) \<Rightarrow> bool" where
  "is_argsort srt \<longleftrightarrow>
     (\<forall>xs. distinct (srt xs) \<and> set (srt xs) = {0..<length xs} \<and> sorted (map (nth xs) (srt xs)))"

definition stable_argsort :: "real list \<Rightarrow> nat list" where
  "stable_argsort xs = sort_key (\<lambda>i. xs ! i) [0..<length xs]"

definition reversed_argsort :: "real list \<Rightarrow> nat list" where
  "reversed_argsort xs = sort_key (\<lambda>i. xs ! i) (rev [0..<length xs])"

text \<open>
  \<^verbatim>\<open>a[idx]\<close> for an index array: numpy raises IndexError when an index is out of
  bounds.
\<close>

definition take_idx :: "'a list \<Rightarrow> nat list \<Rightarrow> py_error + 'a list" where
  "take_idx a idx =
     (if list_all (\<lambda>i. i < length a) idx then Inr (map (nth a) idx) else Inl IndexError)"

text \<open>
  The arithmetic of \<open>find_mphi_crit\<close> is float arithmetic: every subtraction, division,
  multiplication and addition returns the rounded exact result. \<open>rnd\<close> is that
  rounding, a parameter: the identity gives exact arithmetic, \<open>fl64\<close> below gives
  binary64. Infinities and NaN are not values of the model.

  The loop \<^verbatim>\<open>for i in range(len(mphi) - 1)\<close>, over the list of the indices still to
  visit. A pair whose signs multiply to a negative number and whose responses differ
  returns the interpolated coordinate; every other pair goes on with the next index; the
  end of the range is \<^verbatim>\<open>return None\<close>.
\<close>

fun crossing_loop ::
  "(real \<Rightarrow> real) \<Rightarrow> real list \<Rightarrow> real list \<Rightarrow> real list \<Rightarrow> real \<Rightarrow> nat list \<Rightarrow> real option" where
  "crossing_loop rnd mphi PA sign target [] = None"
| "crossing_loop rnd mphi PA sign target (i # rest) =
     (if sign ! i * sign ! (i + 1) < 0 then
        (let m1 = mphi ! i; m2 = mphi ! (i + 1);
             p1 = PA ! i; p2 = PA ! (i + 1)
         in if p2 \<noteq> p1 then
              (let frac = rnd (rnd (target - p1) / rnd (p2 - p1))
               in Some (rnd (m1 + rnd (frac * rnd (m2 - m1)))))
            else crossing_loop rnd mphi PA sign target rest)
      else crossing_loop rnd mphi PA sign target rest)"

definition find_mphi_crit ::
  "(real \<Rightarrow> real) \<Rightarrow> (real list \<Rightarrow> nat list) \<Rightarrow> real list \<Rightarrow> real list \<Rightarrow> real \<Rightarrow>
   py_error + real option" where
  "find_mphi_crit rnd argsort mphi_vals PA_means target =
     (let idx_sort = argsort mphi_vals;
          mphi = map (nth mphi_vals) idx_sort
      in case take_idx PA_means idx_sort of
           Inl e \<Rightarrow> Inl e
         | Inr PA \<Rightarrow>
             (let diff = map (\<lambda>p. rnd (p - target)) PA;
                  sign = map sgn diff
              in Inr (crossing_loop rnd mphi PA sign target [0..<length mphi - 1])))"

text \<open>
  The responses in the order of the scan, line 118 of the source
  (\<^verbatim>\<open>PA = PA_means[idx_sort]\<close>); the test of line 124 on two responses, as the code
  computes it and on the exact differences; the value of lines 130 and 131, as the code
  computes it and exactly.
\<close>

definition PA_sorted :: "(real list \<Rightarrow> nat list) \<Rightarrow> real list \<Rightarrow> real list \<Rightarrow> real list" where
  "PA_sorted argsort mphi_vals PA_means = map (nth PA_means) (argsort mphi_vals)"

definition sign_test :: "(real \<Rightarrow> real) \<Rightarrow> real \<Rightarrow> real \<Rightarrow> real \<Rightarrow> bool" where
  "sign_test rnd target r1 r2 \<longleftrightarrow> sgn (rnd (r1 - target)) * sgn (rnd (r2 - target)) < 0"

definition sign_change :: "real \<Rightarrow> real \<Rightarrow> real \<Rightarrow> bool" where
  "sign_change target r1 r2 \<longleftrightarrow> sgn (r1 - target) * sgn (r2 - target) < 0"

definition interpolate_rnd :: "(real \<Rightarrow> real) \<Rightarrow> real \<Rightarrow> real \<Rightarrow> real \<Rightarrow> real \<Rightarrow> real \<Rightarrow> real" where
  "interpolate_rnd rnd target c1 r1 c2 r2 =
     rnd (c1 + rnd (rnd (rnd (target - r1) / rnd (r2 - r1)) * rnd (c2 - c1)))"

definition interpolate :: "real \<Rightarrow> real \<Rightarrow> real \<Rightarrow> real \<Rightarrow> real \<Rightarrow> real" where
  "interpolate target c1 r1 c2 r2 = c1 + (target - r1) / (r2 - r1) * (c2 - c1)"

text \<open>
  Rounding to binary64: the nearest number with a significand of 53 bits, a tie going to
  the even significand. \<open>rne\<close> rounds a real to the nearest integer in that way. The
  exponent is unbounded, so overflow and the subnormal numbers are outside the
  definition; it is used on numbers of the normal range only.
\<close>

definition rne :: "real \<Rightarrow> int" where
  "rne y = (let f = \<lfloor>y\<rfloor>; d = y - of_int f
            in if d < 1 / 2 then f else if 1 / 2 < d then f + 1
               else if even f then f else f + 1)"

definition fl64 :: "real \<Rightarrow> real" where
  "fl64 x = (if x = 0 then 0
             else (let e = \<lfloor>log 2 \<bar>x\<bar>\<rfloor>; u = 2 powi (e - 52)
                   in of_int (rne (x / u)) * u))"

text \<open>Exact arithmetic: no rounding.\<close>

definition exact :: "real \<Rightarrow> real" where
  "exact x = x"


subsection \<open>numpy reductions\<close>

text \<open>
  \<^verbatim>\<open>np.mean\<close> and \<^verbatim>\<open>np.std\<close> (the population standard deviation, \<open>ddof = 0\<close>) of
  a non-empty array, \<^verbatim>\<open>arr.std(ddof=1)\<close>, and \<^verbatim>\<open>np.mod\<close>, whose result has the sign
  of the divisor. On an empty array numpy's mean and standard deviation are NaN.
\<close>

definition np_mean :: "real list \<Rightarrow> real" where
  "np_mean xs = sum_list xs / real (length xs)"

definition np_std :: "real list \<Rightarrow> real" where
  "np_std xs = sqrt (np_mean (map (\<lambda>x. \<bar>x - np_mean xs\<bar> ^ 2) xs))"

definition np_std_ddof1 :: "real list \<Rightarrow> real" where
  "np_std_ddof1 xs =
     sqrt (sum_list (map (\<lambda>x. \<bar>x - np_mean xs\<bar> ^ 2) xs) / real (length xs - 1))"

definition np_mod :: "real \<Rightarrow> real \<Rightarrow> real" where
  "np_mod x y = x - of_int \<lfloor>x / y\<rfloor> * y"

definition py_mean :: "real list \<Rightarrow> pyfloat" where
  "py_mean xs = (if xs = [] then NaN else Fin (np_mean xs))"

definition py_std :: "real list \<Rightarrow> pyfloat" where
  "py_std xs = (if xs = [] then NaN else Fin (np_std xs))"

text \<open>\<^verbatim>\<open>np.mean\<close> of a list of floats that may hold NaN: one NaN makes the mean NaN.\<close>

definition the_fin :: "pyfloat \<Rightarrow> real" where
  "the_fin x = (case x of Fin r \<Rightarrow> r | NaN \<Rightarrow> 0)"

definition np_mean_f :: "pyfloat list \<Rightarrow> pyfloat" where
  "np_mean_f xs =
     (if xs = [] \<or> NaN \<in> set xs then NaN else Fin (np_mean (map the_fin xs)))"

subsection \<open>compute\_mphi\_crit.py: read\_sector\_csvs and compute\_PA\_vs\_mphi\<close>

text \<open>
  A row of \<^verbatim>\<open>csv.DictReader\<close>: a dictionary from column names to the cell's text, or
  to Python's None for a cell the line does not have. \<open>float_of\<close> stands for Python's
  \<^verbatim>\<open>float(text)\<close>, with None where it raises ValueError; it is a parameter of the
  model. \<^verbatim>\<open>float(None)\<close> raises TypeError, and the bare \<^verbatim>\<open>except\<close> catches both.
\<close>

type_synonym csv_row = "string \<rightharpoonup> string option"

record raw_row =
  raw_m_phi :: pyfloat
  raw_k_rot :: pyfloat
  raw_P_A :: pyfloat

definition dict_get :: "csv_row \<Rightarrow> string \<Rightarrow> string option" where
  "dict_get r k = (case r k of None \<Rightarrow> None | Some v \<Rightarrow> v)"

definition truthy :: "string option \<Rightarrow> bool" where
  "truthy v = (case v of None \<Rightarrow> False | Some s \<Rightarrow> s \<noteq> [])"

definition py_float :: "(string \<Rightarrow> pyfloat option) \<Rightarrow> string option \<Rightarrow> pyfloat option" where
  "py_float float_of v = (case v of None \<Rightarrow> None | Some s \<Rightarrow> float_of s)"

definition pos_f :: "pyfloat \<Rightarrow> bool" where
  "pos_f x = (case x of Fin r \<Rightarrow> 0 < r | NaN \<Rightarrow> False)"

definition div_f :: "pyfloat \<Rightarrow> pyfloat \<Rightarrow> pyfloat" where
  "div_f x y = (case (x, y) of (Fin a, Fin b) \<Rightarrow> Fin (a / b) | _ \<Rightarrow> NaN)"

text \<open>
  The body of the loop over the rows of one file (lines 46 to 79): None is a row that
  appends nothing, \<open>Some row\<close> is \<^verbatim>\<open>rows.append(row)\<close>. The division is only reached
  with a positive \<open>N_total\<close>.
\<close>

definition read_row :: "(string \<Rightarrow> pyfloat option) \<Rightarrow> csv_row \<Rightarrow> raw_row option" where
  "read_row float_of r =
     (case py_float float_of (dict_get r ''m_phi'') of
        None \<Rightarrow> None
      | Some m_phi \<Rightarrow>
         (case (if r ''k_rot'' = None then Some (Fin 0) else py_float float_of (dict_get r ''k_rot'')) of
            None \<Rightarrow> None
          | Some k_rot \<Rightarrow>
             if r ''P_A'' \<noteq> None \<and> truthy (dict_get r ''P_A'') then
               (case py_float float_of (dict_get r ''P_A'') of
                  None \<Rightarrow> None
                | Some P_A \<Rightarrow> Some \<lparr>raw_m_phi = m_phi, raw_k_rot = k_rot, raw_P_A = P_A\<rparr>)
             else
               (let N_total_raw = dict_get r ''N_total''; N_A_raw = dict_get r ''N_A'' in
                if \<not> truthy N_total_raw \<or> \<not> truthy N_A_raw then None
                else
                  (case py_float float_of N_total_raw of
                     None \<Rightarrow> None
                   | Some N_total \<Rightarrow>
                      (case py_float float_of N_A_raw of
                         None \<Rightarrow> None
                       | Some N_A \<Rightarrow>
                          if pos_f N_total then
                            Some \<lparr>raw_m_phi = m_phi, raw_k_rot = k_rot,
                                  raw_P_A = div_f N_A N_total\<rparr>
                          else None)))))"

definition read_sector_rows :: "(string \<Rightarrow> pyfloat option) \<Rightarrow> csv_row list \<Rightarrow> raw_row list" where
  "read_sector_rows float_of rs = List.map_filter (read_row float_of) rs"

text \<open>
  The rows handed to the aggregation. Their coordinates are numbers: a coordinate that
  reads as NaN is outside this model. \<open>P_A\<close> may be NaN, which line 94 tests.
\<close>

record pa_row =
  m_phi :: real
  k_rot :: real
  P_A :: pyfloat

text \<open>
  \<^verbatim>\<open>collections.defaultdict(list)\<close> as an association list in insertion order:
  \<^verbatim>\<open>d[k].append(v)\<close> and \<^verbatim>\<open>d.get(k, [])\<close>.
\<close>

fun dd_append :: "('k \<times> 'v list) list \<Rightarrow> 'k \<Rightarrow> 'v \<Rightarrow> ('k \<times> 'v list) list" where
  "dd_append [] k v = [(k, [v])]"
| "dd_append ((k', vs) # d) k v =
     (if k' = k then (k', vs @ [v]) # d else (k', vs) # dd_append d k v)"

definition dd_get :: "('k \<times> 'v list) list \<Rightarrow> 'k \<Rightarrow> 'v list" where
  "dd_get d k = (case map_of d k of None \<Rightarrow> [] | Some vs \<Rightarrow> vs)"

definition group_by_mphi :: "pa_row list \<Rightarrow> (real \<times> real list) list" where
  "group_by_mphi rows =
     foldl (\<lambda>groups r. case P_A r of NaN \<Rightarrow> groups
                                     | Fin p \<Rightarrow> dd_append groups (m_phi r) p) [] rows"

definition compute_PA_vs_mphi :: "pa_row list \<Rightarrow> real list \<times> real list \<times> real list" where
  "compute_PA_vs_mphi rows =
     (let groups = group_by_mphi rows;
          mphi_vals = sort (map fst groups);
          PA_means = map (\<lambda>mphi. np_mean (dd_get groups mphi)) mphi_vals;
          PA_stds = map (\<lambda>mphi. let arr = dd_get groups mphi
                                 in if length arr > 1 then np_std_ddof1 arr else 0) mphi_vals
      in (mphi_vals, PA_means, PA_stds))"

definition TARGET_PA :: real where
  "TARGET_PA = 0.5"

text \<open>The critical value as \<open>main\<close> computes it from the rows (lines 164 and 165).\<close>

definition mphi_crit_of_rows ::
  "(real \<Rightarrow> real) \<Rightarrow> (real list \<Rightarrow> nat list) \<Rightarrow> pa_row list \<Rightarrow> py_error + real option" where
  "mphi_crit_of_rows rnd argsort rows =
     (case compute_PA_vs_mphi rows of
        (mphi_vals, PA_means, PA_stds) \<Rightarrow>
          find_mphi_crit rnd argsort mphi_vals PA_means TARGET_PA)"

subsection \<open>phase\_sector\_scan.py: classify\_phase\_trajectory\<close>

text \<open>
  \<^verbatim>\<open>int(0.9 * n)\<close>, the index where the tail starts, and the tail reduced modulo
  \<open>2\<pi>\<close> (lines 57 and 58). With at least 50 samples the tail holds at least 5.
\<close>

definition tail_start :: "nat \<Rightarrow> nat" where
  "tail_start n = nat \<lfloor>0.9 * real n\<rfloor>"

definition phi_mod_tail :: "real list \<Rightarrow> real list" where
  "phi_mod_tail delta_phi_arr =
     map (\<lambda>x. np_mod x (2 * pi)) (drop (tail_start (length delta_phi_arr)) delta_phi_arr)"

definition classify_phase_trajectory :: "real list \<Rightarrow> string" where
  "classify_phase_trajectory delta_phi_arr =
     (let n = length delta_phi_arr in
      if n < 50 then ''C''
      else
        (let phi_mod = phi_mod_tail delta_phi_arr;
             phi_mean = np_mean phi_mod;
             phi_std = np_std phi_mod;
             tol_conv = 0.08;
             tol_pi = 0.25
         in if phi_std < tol_conv \<and> phi_mean < pi - tol_pi then ''A''
            else if phi_std < tol_conv \<and> \<bar>phi_mean - pi\<bar> < tol_pi then ''B''
            else ''C''))"

subsection \<open>phase\_evolution\_ode.py and the scanning loop of phase\_sector\_scan.py\<close>

text \<open>
  \<^verbatim>\<open>scipy.integrate.solve_ivp\<close> is outside the repository and a parameter of the model:
  from the parameters \<open>(m_phi, k_rot, q, H0)\<close>, the initial state, the interval and the
  number of evaluation points it either raises or returns a solution object. A solution
  carries the evaluation points it reached, the rows of \<open>y\<close> at these points and a flag
  that says whether the integration came to the end of the interval. An integration
  that fails before its first evaluation point returns no point and an empty \<open>y\<close>.
\<close>

record ode_solution =
  sol_t :: "real list"
  sol_y :: "real list list"
  sol_success :: bool

type_synonym ivp_solver =
  "real \<times> real \<times> real \<times> real \<Rightarrow> real \<times> real \<Rightarrow> real \<times> real \<Rightarrow> nat \<Rightarrow> py_error + ode_solution"

text \<open>
  \<^verbatim>\<open>return sol.t, sol.y[0], sol.y[1]\<close>: indexing a \<open>y\<close> without that row raises
  IndexError. The flag of the solution is not read.
\<close>

definition run_phase_evolution ::
  "ivp_solver \<Rightarrow> real \<Rightarrow> real \<Rightarrow> real \<Rightarrow> real \<Rightarrow> real \<Rightarrow> real \<Rightarrow> real \<Rightarrow> nat \<Rightarrow>
   py_error + real list \<times> real list \<times> real list" where
  "run_phase_evolution solve_ivp m k q delta_phi_ini delta_phidot_ini a_ini a_max n_steps =
     (let H0 = 1;
          y0 = (delta_phi_ini, delta_phidot_ini);
          a_span = (a_ini, a_max)
      in case solve_ivp (m, k, q, H0) y0 a_span n_steps of
           Inl e \<Rightarrow> Inl e
         | Inr sol \<Rightarrow>
             (case sol_y sol of
                [] \<Rightarrow> Inl IndexError
              | [row0] \<Rightarrow> Inl IndexError
              | row0 # row1 # others \<Rightarrow> Inr (sol_t sol, row0, row1)))"

record summary_row =
  row_m_phi :: real
  row_k_rot :: real
  row_q :: real
  row_delta_phi_ini :: real
  row_sector :: string
  row_phi_mean_tail :: pyfloat
  row_phi_std_tail :: pyfloat

definition m_phi_list :: "real list" where
  "m_phi_list = [0.2, 0.5, 1.0, 2.0, 3.0]"

definition k_rot_list :: "real list" where
  "k_rot_list = [0.0, 0.1, 0.2, 0.5]"

definition q_list :: "real list" where
  "q_list = [1.0]"

definition delta_phi_ini_list :: "real list" where
  "delta_phi_ini_list = [0.01, pi * 0.5, pi * 0.9]"

text \<open>The four nested \<^verbatim>\<open>for\<close> loops visit the grid points in this order.\<close>

definition grid_points ::
  "real list \<Rightarrow> real list \<Rightarrow> real list \<Rightarrow> real list \<Rightarrow> (real \<times> real \<times> real \<times> real) list" where
  "grid_points ms ks qs ds =
     concat (map (\<lambda>m. concat (map (\<lambda>k. concat (map (\<lambda>q. map (\<lambda>d. (m, k, q, d)) ds) qs)) ks)) ms)"

text \<open>
  The row written for one grid point from the arrays the integrator returned (lines 132
  to 169; the trajectory file and its name are not modelled).
\<close>

definition make_row :: "real \<times> real \<times> real \<times> real \<Rightarrow> real list \<Rightarrow> real list \<Rightarrow> summary_row" where
  "make_row point a_arr dphi_arr =
     (case point of (m, k, q, delta_phi_ini) \<Rightarrow>
        (let phi_tail = map (\<lambda>x. np_mod x (2 * pi)) (drop (tail_start (length a_arr)) dphi_arr);
             phi_mean = py_mean phi_tail;
             phi_std = py_std phi_tail;
             sector = classify_phase_trajectory dphi_arr
         in \<lparr>row_m_phi = m, row_k_rot = k, row_q = q, row_delta_phi_ini = delta_phi_ini,
              row_sector = sector, row_phi_mean_tail = phi_mean, row_phi_std_tail = phi_std\<rparr>))"

text \<open>
  One pass of the body of the loops (lines 119 to 169): the call of the integrator with
  the fixed arguments of lines 126 to 129, and the row it leads to. Nothing in the body
  catches an exception.
\<close>

definition scan_point :: "ivp_solver \<Rightarrow> real \<times> real \<times> real \<times> real \<Rightarrow> py_error + summary_row" where
  "scan_point solve_ivp point =
     (case point of (m, k, q, delta_phi_ini) \<Rightarrow>
        (case run_phase_evolution solve_ivp m k q delta_phi_ini 0 (1 / 1000) 10 2000 of
           Inl e \<Rightarrow> Inl e
         | Inr (a_arr, dphi_arr, dphidot_arr) \<Rightarrow> Inr (make_row point a_arr dphi_arr)))"

text \<open>
  The loops on the grid points still to visit, with the rows written so far. An
  exception ends the script: the result is the rows written before it and the exception.
\<close>

fun scan_loop ::
  "ivp_solver \<Rightarrow> (real \<times> real \<times> real \<times> real) list \<Rightarrow> summary_row list \<Rightarrow>
   summary_row list \<times> py_error option" where
  "scan_loop solve_ivp [] rows = (rows, None)"
| "scan_loop solve_ivp (point # rest) rows =
     (case scan_point solve_ivp point of
        Inl e \<Rightarrow> (rows, Some e)
      | Inr row \<Rightarrow> scan_loop solve_ivp rest (rows @ [row]))"

definition phase_sector_scan :: "ivp_solver \<Rightarrow> summary_row list \<times> py_error option" where
  "phase_sector_scan solve_ivp =
     scan_loop solve_ivp (grid_points m_phi_list k_rot_list q_list delta_phi_ini_list) []"

subsection \<open>phase\_sector\_boundary\_fine\_scan.py: the A to C transition of one row\<close>

text \<open>
  Lines 103 to 122 for one value of \<open>m_phi\<close>: None is either \<^verbatim>\<open>continue\<close>, a value
  is the \<open>k_crit\<close> appended to \<open>boundary_points\<close>. \<open>sector_list\<close> holds one label for
  each entry of \<open>k_values\<close>.
\<close>

definition enumerate_eq :: "string list \<Rightarrow> string \<Rightarrow> nat list" where
  "enumerate_eq sector_list lab = filter (\<lambda>i. sector_list ! i = lab) [0..<length sector_list]"

definition detect_AC :: "real list \<Rightarrow> string list \<Rightarrow> real option" where
  "detect_AC k_values sector_list =
     (let idx_A = enumerate_eq sector_list ''A'';
          idx_C = enumerate_eq sector_list ''C''
      in if idx_A = [] \<or> idx_C = [] then None
         else
           (let last_A = Max (set idx_A);
                first_C = Min (set idx_C)
            in if first_C \<le> last_A then None
               else
                 (let k_last_A = k_values ! last_A;
                      k_first_C = k_values ! first_C;
                      k_crit = 0.5 * (k_last_A + k_first_C)
                  in Some k_crit)))"

definition fine_boundary_points :: "real list \<Rightarrow> (real \<times> string list) list \<Rightarrow> (real \<times> real) list" where
  "fine_boundary_points k_values labelled =
     List.map_filter (\<lambda>(m, sector_list). map_option (Pair m) (detect_AC k_values sector_list))
       labelled"

subsection \<open>phase\_sector\_boundary\_from\_zoom.py: adjacent A and C samples\<close>

record zoom_row =
  z_m_phi :: real
  z_Delta_phi_ini :: real
  z_sector :: string

text \<open>
  \<^verbatim>\<open>data["sector"].map(sector_map)\<close>: a label that is not a key of the dictionary
  becomes NaN, here None.
\<close>

definition sector_map :: "string \<Rightarrow> nat option" where
  "sector_map s = (if s = ''A'' then Some 0 else if s = ''B'' then Some 1
                   else if s = ''C'' then Some 2 else None)"

text \<open>The inner loop (lines 84 to 89) on the arrays of one value of \<open>m_phi\<close>.\<close>

definition row_transitions :: "real \<Rightarrow> real list \<Rightarrow> nat option list \<Rightarrow> (real \<times> real) list" where
  "row_transitions m dphi_vals sec_vals =
     concat (map (\<lambda>j. let s1 = sec_vals ! j; s2 = sec_vals ! (j + 1)
                       in if {s1, s2} = {Some 0, Some 2}
                          then [(m, (dphi_vals ! j + dphi_vals ! (j + 1)) / 2)]
                          else [])
                 [0..<length sec_vals - 1])"

text \<open>
  The rows of one \<open>m_phi\<close>, already in the order of \<open>Delta_phi_ini\<close>, and the whole
  loop over the values of \<open>m_phi\<close> (lines 75 to 89). \<^verbatim>\<open>sort_values("Delta_phi_ini")\<close>
  is a parameter: pandas sorts with a sort that is not stable, so the order of rows of
  equal \<open>Delta_phi_ini\<close> is left open.
\<close>

definition zoom_group :: "real \<Rightarrow> zoom_row list \<Rightarrow> (real \<times> real) list" where
  "zoom_group m df_m =
     row_transitions m (map z_Delta_phi_ini df_m) (map (sector_map \<circ> z_sector) df_m)"

definition zoom_boundary_points ::
  "(zoom_row list \<Rightarrow> zoom_row list) \<Rightarrow> zoom_row list \<Rightarrow> (real \<times> real) list" where
  "zoom_boundary_points sort_values data =
     concat (map (\<lambda>m. zoom_group m (sort_values (filter (\<lambda>r. z_m_phi r = m) data)))
                 (sorted_list_of_set (set (map z_m_phi data))))"

subsection \<open>phase\_sector\_map\_2D.py: build\_grid\<close>

text \<open>
  The rows are triples \<open>(m_phi, k_rot, P_A)\<close>. A cell of the grid is NaN, as
  \<^verbatim>\<open>np.full((K, M), np.nan)\<close> left it, or the mean of the values of its key.
\<close>

definition fill_grid :: "(real \<times> real \<times> pyfloat) list \<Rightarrow> ((real \<times> real) \<times> pyfloat list) list" where
  "fill_grid rows = foldl (\<lambda>grid (m, k, p). dd_append grid (m, k) p) [] rows"

definition build_grid ::
  "(real \<times> real \<times> pyfloat) list \<Rightarrow> real list \<times> real list \<times> pyfloat list list" where
  "build_grid rows =
     (let grid = fill_grid rows;
          mphi_vals = sorted_list_of_set (set (map (fst \<circ> fst) grid));
          krot_vals = sorted_list_of_set (set (map (snd \<circ> fst) grid));
          PA_grid = map (\<lambda>k. map (\<lambda>m. let vals = dd_get grid (m, k)
                                         in if vals \<noteq> [] then np_mean_f vals else NaN)
                                   mphi_vals) krot_vals
      in (mphi_vals, krot_vals, PA_grid))"

subsection \<open>phase\_sector\_map.py: the grid of sector codes\<close>

record sector_row =
  s_m_phi :: real
  s_k_rot :: real
  s_q :: real
  s_delta_phi_ini :: real
  s_sector :: string

text \<open>\<^verbatim>\<open>code.get(sector, 2)\<close> and \<^verbatim>\<open>list.index\<close>, which raises ValueError.\<close>

definition code_get :: "string \<Rightarrow> int" where
  "code_get s = (if s = ''A'' then 0 else if s = ''B'' then 1 else if s = ''C'' then 2 else 2)"

fun list_index :: "'a list \<Rightarrow> 'a \<Rightarrow> py_error + nat" where
  "list_index [] x = Inl ValueError"
| "list_index (y # ys) x =
     (if y = x then Inr 0
      else case list_index ys x of Inl e \<Rightarrow> Inl e | Inr i \<Rightarrow> Inr (Suc i))"

text \<open>
  The loop of lines 78 to 82 on the grid \<^verbatim>\<open>np.zeros((len(m_list), len(k_list)), dtype=int)\<close>.
\<close>

fun assign_sectors ::
  "real list \<Rightarrow> real list \<Rightarrow> sector_row list \<Rightarrow> int list list \<Rightarrow> py_error + int list list" where
  "assign_sectors m_list k_list [] grid = Inr grid"
| "assign_sectors m_list k_list (r # rest) grid =
     (case list_index m_list (s_m_phi r) of
        Inl e \<Rightarrow> Inl e
      | Inr i \<Rightarrow>
         (case list_index k_list (s_k_rot r) of
            Inl e \<Rightarrow> Inl e
          | Inr j \<Rightarrow>
             assign_sectors m_list k_list rest (grid[i := (grid ! i)[j := code_get (s_sector r)]])))"

definition sector_grid :: "sector_row list \<Rightarrow> py_error + real list \<times> real list \<times> int list list" where
  "sector_grid rows =
     (let q_plot = 1;
          rows_q = filter (\<lambda>r. \<bar>s_q r - q_plot\<bar> < 1 / 10 ^ 9) rows
      in if length rows_q = 0 then Inl RuntimeError
         else
           (let m_list = sorted_list_of_set (set (map s_m_phi rows_q));
                k_list = sorted_list_of_set (set (map s_k_rot rows_q));
                target_ini = 0.01;
                rows_map = filter (\<lambda>r. \<bar>s_delta_phi_ini r - target_ini\<bar> < 1 / 10 ^ 6) rows_q
            in if length rows_map = 0 then Inl RuntimeError
               else
                 (let grid = replicate (length m_list) (replicate (length k_list) 0)
                  in case assign_sectors m_list k_list rows_map grid of
                       Inl e \<Rightarrow> Inl e
                     | Inr g \<Rightarrow> Inr (m_list, k_list, g))))"

subsection \<open>Quantities and inputs the statements use\<close>

text \<open>
  The responses of the rows at one coordinate that are not NaN, in the order of the
  rows: the samples of the group of that coordinate.
\<close>

definition samples_at :: "pa_row list \<Rightarrow> real \<Rightarrow> real list" where
  "samples_at rows m = map (the_fin \<circ> P_A) (filter (\<lambda>r. P_A r \<noteq> NaN \<and> m_phi r = m) rows)"

text \<open>
  Three integrators to run the loop on. The first raises for \<open>m_phi = 0.2\<close> and returns
  a constant trajectory of 50 points otherwise. The second never raises: it stops after
  two evaluation points and says so in its flag. The third never raises either: it
  fails before the first evaluation point and returns no point and an empty \<open>y\<close>.
\<close>

definition raising_solver :: ivp_solver where
  "raising_solver params y0 a_span n_steps =
     (case params of (m, k, q, H0) \<Rightarrow>
        if m = 0.2 then Inl IntegrationError
        else Inr \<lparr>sol_t = replicate 50 1,
                  sol_y = [replicate 50 0, replicate 50 0], sol_success = True\<rparr>)"

definition truncated_solver :: ivp_solver where
  "truncated_solver params y0 a_span n_steps =
     Inr \<lparr>sol_t = [1 / 1000, 1 / 500], sol_y = [[1 / 100, 1 / 100], [0, 0]],
          sol_success = False\<rparr>"

definition stalled_solver :: ivp_solver where
  "stalled_solver params y0 a_span n_steps =
     Inr \<lparr>sol_t = [], sol_y = [], sol_success = False\<rparr>"

text \<open>A reading of four cell texts as floats, to run the reader on.\<close>

definition digit_float :: "string \<Rightarrow> pyfloat option" where
  "digit_float s = (if s = ''1'' then Some (Fin 1) else if s = ''3'' then Some (Fin 3)
                    else if s = ''4'' then Some (Fin 4) else if s = ''5'' then Some (Fin 5)
                    else None)"



section \<open>Properties\<close>

subsection \<open>The A to C transition of a row\<close>

lemma set_enumerate_eq:
  "set (enumerate_eq s lab) = {i. i < length s \<and> s ! i = lab}"
  by (auto simp: enumerate_eq_def)

lemma enumerate_eq_Nil: "enumerate_eq s lab = [] \<longleftrightarrow> lab \<notin> set s"
proof -
  have "enumerate_eq s lab = [] \<longleftrightarrow> set (enumerate_eq s lab) = {}" by simp
  also have "\<dots> \<longleftrightarrow> lab \<notin> set s"
    unfolding set_enumerate_eq by (auto simp: in_set_conv_nth)
  finally show ?thesis .
qed

lemma detect_AC_Some:
  assumes "i < length s" and "j < length s" and "i < j"
    and "s ! i = ''A''" and "s ! j = ''C''"
    and "\<And>l. l < length s \<Longrightarrow> s ! l = ''A'' \<Longrightarrow> l \<le> i"
    and "\<And>l. l < length s \<Longrightarrow> s ! l = ''C'' \<Longrightarrow> j \<le> l"
  shows "detect_AC ks s = Some ((ks ! i + ks ! j) / 2)"
proof -
  have A: "Max (set (enumerate_eq s ''A'')) = i"
    by (rule Max_eqI) (use assms in \<open>auto simp: set_enumerate_eq\<close>)
  have C: "Min (set (enumerate_eq s ''C'')) = j"
    by (rule Min_eqI) (use assms in \<open>auto simp: set_enumerate_eq\<close>)
  have "''A'' \<in> set s" "''C'' \<in> set s"
    using assms(1,2,4,5) by (auto simp: in_set_conv_nth)
  then have ne: "enumerate_eq s ''A'' \<noteq> []" "enumerate_eq s ''C'' \<noteq> []"
    by (simp_all add: enumerate_eq_Nil)
  show ?thesis
    using ne assms(3) by (simp add: detect_AC_def A C Let_def)
qed

lemma detect_AC_SomeD:
  assumes "detect_AC ks s = Some v"
  shows "\<exists>i j. i < j \<and> j < length s \<and> s ! i = ''A'' \<and> s ! j = ''C''
           \<and> (\<forall>l<length s. s ! l = ''A'' \<longrightarrow> l \<le> i)
           \<and> (\<forall>l<length s. s ! l = ''C'' \<longrightarrow> j \<le> l)
           \<and> v = (ks ! i + ks ! j) / 2"
proof -
  let ?A = "set (enumerate_eq s ''A'')" and ?C = "set (enumerate_eq s ''C'')"
  have ne': "enumerate_eq s ''A'' \<noteq> [] \<and> enumerate_eq s ''C'' \<noteq> []"
    using assms by (auto simp: detect_AC_def Let_def split: if_splits)
  then have ne: "?A \<noteq> {}" "?C \<noteq> {}" by simp_all
  have lt: "Max ?A < Min ?C"
  proof (rule ccontr)
    assume "\<not> Max ?A < Min ?C"
    then have "Min ?C \<le> Max ?A" by (simp only: not_less)
    then have "detect_AC ks s = None" by (simp add: detect_AC_def Let_def)
    with assms show False by simp
  qed
  then have "\<not> Min ?C \<le> Max ?A" by (simp only: not_le)
  then have "detect_AC ks s = Some (0.5 * (ks ! Max ?A + ks ! Min ?C))"
    using ne' by (simp add: detect_AC_def Let_def del: Max_less_iff Min_le_iff Max_ge_iff)
  with assms have v: "v = (ks ! Max ?A + ks ! Min ?C) / 2" by simp
  have "Max ?A \<in> ?A" using ne(1) by (intro Max_in) simp_all
  then have a: "Max ?A < length s" "s ! Max ?A = ''A''"
    by (simp_all add: set_enumerate_eq)
  have "Min ?C \<in> ?C" using ne(2) by (intro Min_in) simp_all
  then have c: "Min ?C < length s" "s ! Min ?C = ''C''"
    by (simp_all add: set_enumerate_eq)
  have ua: "\<forall>l<length s. s ! l = ''A'' \<longrightarrow> l \<le> Max ?A"
    by (auto intro!: Max_ge simp: set_enumerate_eq)
  have uc: "\<forall>l<length s. s ! l = ''C'' \<longrightarrow> Min ?C \<le> l"
    by (auto intro!: Min_le simp: set_enumerate_eq)
  show ?thesis using lt a c ua uc v by blast
qed

lemma detect_AC_overlap:
  assumes "i < length s" and "j \<le> i" and "s ! i = ''A''" and "s ! j = ''C''"
  shows "detect_AC ks s = None"
proof -
  let ?A = "set (enumerate_eq s ''A'')" and ?C = "set (enumerate_eq s ''C'')"
  have "i \<in> ?A" "j \<in> ?C" using assms by (simp_all add: set_enumerate_eq)
  then have "i \<le> Max ?A" "Min ?C \<le> j" by (simp_all add: Max_ge Min_le)
  then have "Min ?C \<le> Max ?A" using assms(2) by simp
  then show ?thesis by (simp add: detect_AC_def Let_def)
qed

text \<open>
  Claim C3. For a row of labels with one coordinate each, the detection returns a value
  exactly when the last index labelled A lies strictly before the first index labelled
  C, and the value is the midpoint of the coordinates at these two indices. A row
  without an A or without a C, and a row with a C at or before an A, give None (no
  boundary for the row).
\<close>

theorem detect_AC_midpoint:
  assumes "length k_values = length sector_list"
  shows "(detect_AC k_values sector_list = Some v \<longleftrightarrow>
            (\<exists>i j. i < j \<and> j < length sector_list
                 \<and> sector_list ! i = ''A'' \<and> sector_list ! j = ''C''
                 \<and> (\<forall>l<length sector_list. sector_list ! l = ''A'' \<longrightarrow> l \<le> i)
                 \<and> (\<forall>l<length sector_list. sector_list ! l = ''C'' \<longrightarrow> j \<le> l)
                 \<and> v = (k_values ! i + k_values ! j) / 2))
         \<and> (''A'' \<notin> set sector_list \<or> ''C'' \<notin> set sector_list \<longrightarrow>
              detect_AC k_values sector_list = None)
         \<and> (\<forall>i j. i < length sector_list \<and> j \<le> i
                 \<and> sector_list ! i = ''A'' \<and> sector_list ! j = ''C'' \<longrightarrow>
              detect_AC k_values sector_list = None)"
proof (intro conjI)
  show "detect_AC k_values sector_list = Some v \<longleftrightarrow>
            (\<exists>i j. i < j \<and> j < length sector_list
                 \<and> sector_list ! i = ''A'' \<and> sector_list ! j = ''C''
                 \<and> (\<forall>l<length sector_list. sector_list ! l = ''A'' \<longrightarrow> l \<le> i)
                 \<and> (\<forall>l<length sector_list. sector_list ! l = ''C'' \<longrightarrow> j \<le> l)
                 \<and> v = (k_values ! i + k_values ! j) / 2)"
  proof
    assume "detect_AC k_values sector_list = Some v"
    then show "\<exists>i j. i < j \<and> j < length sector_list
                 \<and> sector_list ! i = ''A'' \<and> sector_list ! j = ''C''
                 \<and> (\<forall>l<length sector_list. sector_list ! l = ''A'' \<longrightarrow> l \<le> i)
                 \<and> (\<forall>l<length sector_list. sector_list ! l = ''C'' \<longrightarrow> j \<le> l)
                 \<and> v = (k_values ! i + k_values ! j) / 2"
      by (rule detect_AC_SomeD)
  next
    assume "\<exists>i j. i < j \<and> j < length sector_list
                 \<and> sector_list ! i = ''A'' \<and> sector_list ! j = ''C''
                 \<and> (\<forall>l<length sector_list. sector_list ! l = ''A'' \<longrightarrow> l \<le> i)
                 \<and> (\<forall>l<length sector_list. sector_list ! l = ''C'' \<longrightarrow> j \<le> l)
                 \<and> v = (k_values ! i + k_values ! j) / 2"
    then obtain i j where ij: "i < j" "j < length sector_list"
        "sector_list ! i = ''A''" "sector_list ! j = ''C''"
        "\<forall>l<length sector_list. sector_list ! l = ''A'' \<longrightarrow> l \<le> i"
        "\<forall>l<length sector_list. sector_list ! l = ''C'' \<longrightarrow> j \<le> l"
        "v = (k_values ! i + k_values ! j) / 2"
      by blast
    have "detect_AC k_values sector_list = Some ((k_values ! i + k_values ! j) / 2)"
      using ij(1-6) by (intro detect_AC_Some) auto
    then show "detect_AC k_values sector_list = Some v" using ij(7) by simp
  qed
next
  show "''A'' \<notin> set sector_list \<or> ''C'' \<notin> set sector_list \<longrightarrow>
          detect_AC k_values sector_list = None"
    by (auto simp: detect_AC_def enumerate_eq_Nil)
next
  show "\<forall>i j. i < length sector_list \<and> j \<le> i
            \<and> sector_list ! i = ''A'' \<and> sector_list ! j = ''C'' \<longrightarrow>
          detect_AC k_values sector_list = None"
    using detect_AC_overlap by blast
qed

theorem detect_AC_midpoint_witness:
  "length [0, 1, 2, 3, 4 :: real] = length [''A'', ''A'', ''A'', ''C'', ''C'']
   \<and> detect_AC [0, 1, 2, 3, 4] [''A'', ''A'', ''A'', ''C'', ''C''] = Some 2.5
   \<and> detect_AC [0, 1, 2] [''A'', ''A'', ''A''] = None
   \<and> detect_AC [0, 1, 2] [''C'', ''C'', ''C''] = None
   \<and> detect_AC [0, 1, 2] [''A'', ''C'', ''A''] = None"
proof -
  let ?s = "[''A'', ''A'', ''A'', ''C'', ''C'']"
  have l5: "length [0, 1, 2, 3, 4 :: real] = length ?s" by simp
  have l3: "length [0, 1, 2 :: real] = length [''A'', ''A'', ''A'']" by simp
  have l3c: "length [0, 1, 2 :: real] = length [''C'', ''C'', ''C'']" by simp
  have l3o: "length [0, 1, 2 :: real] = length [''A'', ''C'', ''A'']" by simp
  have "(2::nat) < 3 \<and> 3 < length ?s \<and> ?s ! 2 = ''A'' \<and> ?s ! 3 = ''C''
        \<and> (\<forall>l<length ?s. ?s ! l = ''A'' \<longrightarrow> l \<le> 2)
        \<and> (\<forall>l<length ?s. ?s ! l = ''C'' \<longrightarrow> 3 \<le> l)
        \<and> (2.5::real) = ([0, 1, 2, 3, 4] ! 2 + [0, 1, 2, 3, 4] ! 3) / 2"
    by (auto simp: less_Suc_eq)
  then have ex: "\<exists>i j. i < j \<and> j < length ?s \<and> ?s ! i = ''A'' \<and> ?s ! j = ''C''
        \<and> (\<forall>l<length ?s. ?s ! l = ''A'' \<longrightarrow> l \<le> i)
        \<and> (\<forall>l<length ?s. ?s ! l = ''C'' \<longrightarrow> j \<le> l)
        \<and> (2.5::real) = ([0, 1, 2, 3, 4] ! i + [0, 1, 2, 3, 4] ! j) / 2"
    by blast
  have a: "detect_AC [0, 1, 2, 3, 4] ?s = Some 2.5"
    using detect_AC_midpoint [OF l5, of "2.5"] ex by blast
  have b: "detect_AC [0, 1, 2] [''A'', ''A'', ''A''] = None"
    using detect_AC_midpoint [OF l3, of 0] by simp
  have c: "detect_AC [0, 1, 2] [''C'', ''C'', ''C''] = None"
    using detect_AC_midpoint [OF l3c, of 0] by simp
  have "(2::nat) < length [''A'', ''C'', ''A''] \<and> (1::nat) \<le> 2
        \<and> [''A'', ''C'', ''A''] ! 2 = ''A'' \<and> [''A'', ''C'', ''A''] ! 1 = ''C''"
    by simp
  then have d: "detect_AC [0, 1, 2] [''A'', ''C'', ''A''] = None"
    using detect_AC_midpoint [OF l3o, of 0] by blast
  show ?thesis using a b c d by simp
qed

subsection \<open>Adjacent A and C samples\<close>

lemma sector_pair_AC:
  "{sector_map a, sector_map b} = {Some 0, Some 2} \<longleftrightarrow>
   (a = ''A'' \<and> b = ''C'') \<or> (a = ''C'' \<and> b = ''A'')"
  by (auto simp: sector_map_def doubleton_eq_iff)

lemma concat_map_if:
  "concat (map (\<lambda>j. if P j then [f j] else []) js) = map f (filter P js)"
  by (induction js) simp_all

text \<open>
  Claim C4. For the samples of one group in their order, the pairwise detection returns
  one point for each adjacent pair whose labels are A and C in either order, at the
  midpoint of the pair's second coordinates, and nothing for any other pair: a pair with
  a third label (B, or a label that is no sector) contributes no point.
\<close>

theorem zoom_group_pairs:
  "zoom_group m df_m =
     map (\<lambda>j. (m, (z_Delta_phi_ini (df_m ! j) + z_Delta_phi_ini (df_m ! (j + 1))) / 2))
       (filter (\<lambda>j. (z_sector (df_m ! j) = ''A'' \<and> z_sector (df_m ! (j + 1)) = ''C'')
                  \<or> (z_sector (df_m ! j) = ''C'' \<and> z_sector (df_m ! (j + 1)) = ''A''))
               [0..<length df_m - 1])"
proof -
  let ?n = "length df_m"
  let ?mid = "\<lambda>j. (m, (z_Delta_phi_ini (df_m ! j) + z_Delta_phi_ini (df_m ! (j + 1))) / 2)"
  let ?P = "\<lambda>j. (z_sector (df_m ! j) = ''A'' \<and> z_sector (df_m ! (j + 1)) = ''C'')
                  \<or> (z_sector (df_m ! j) = ''C'' \<and> z_sector (df_m ! (j + 1)) = ''A'')"
  let ?sec = "map (sector_map \<circ> z_sector) df_m"
  let ?dphi = "map z_Delta_phi_ini df_m"
  let ?F = "\<lambda>j. let s1 = ?sec ! j; s2 = ?sec ! (j + 1)
                in if {s1, s2} = {Some 0, Some 2}
                   then [(m, (?dphi ! j + ?dphi ! (j + 1)) / 2)]
                   else []"
  have step: "?F j = (if ?P j then [?mid j] else [])" if "j \<in> set [0..<?n - 1]" for j
  proof -
    from that have "j < ?n" "j + 1 < ?n" by auto
    then show ?thesis by (simp add: sector_pair_AC Let_def)
  qed
  have "map ?F [0..<?n - 1] = map (\<lambda>j. if ?P j then [?mid j] else []) [0..<?n - 1]"
    by (rule map_cong [OF refl]) (rule step)
  moreover have "zoom_group m df_m = concat (map ?F [0..<?n - 1])"
    by (simp only: zoom_group_def row_transitions_def length_map)
  ultimately have "zoom_group m df_m =
      concat (map (\<lambda>j. if ?P j then [?mid j] else []) [0..<?n - 1])"
    by (simp only:)
  then show ?thesis by (simp only: concat_map_if)
qed

theorem zoom_group_pairs_witness:
  "zoom_group 1 [\<lparr>z_m_phi = 1, z_Delta_phi_ini = 0, z_sector = ''A''\<rparr>,
                 \<lparr>z_m_phi = 1, z_Delta_phi_ini = 1, z_sector = ''B''\<rparr>,
                 \<lparr>z_m_phi = 1, z_Delta_phi_ini = 2, z_sector = ''C''\<rparr>] = []
   \<and> zoom_group 1 [\<lparr>z_m_phi = 1, z_Delta_phi_ini = 0, z_sector = ''A''\<rparr>,
                   \<lparr>z_m_phi = 1, z_Delta_phi_ini = 1, z_sector = ''C''\<rparr>,
                   \<lparr>z_m_phi = 1, z_Delta_phi_ini = 2, z_sector = ''C''\<rparr>] = [(1, 1 / 2)]
   \<and> zoom_boundary_points (sort_key z_Delta_phi_ini) [\<lparr>z_m_phi = 1, z_Delta_phi_ini = 2, z_sector = ''C''\<rparr>,
                           \<lparr>z_m_phi = 1, z_Delta_phi_ini = 0, z_sector = ''A''\<rparr>,
                           \<lparr>z_m_phi = 1, z_Delta_phi_ini = 1, z_sector = ''C''\<rparr>] = [(1, 1 / 2)]"
proof -
  have two: "[0..<2] = [0, Suc 0]" by (simp add: upt_rec)
  have a: "zoom_group 1 [\<lparr>z_m_phi = 1, z_Delta_phi_ini = 0, z_sector = ''A''\<rparr>,
                 \<lparr>z_m_phi = 1, z_Delta_phi_ini = 1, z_sector = ''B''\<rparr>,
                 \<lparr>z_m_phi = 1, z_Delta_phi_ini = 2, z_sector = ''C''\<rparr>] = []"
    by (simp add: zoom_group_pairs two)
  have b: "zoom_group 1 [\<lparr>z_m_phi = 1, z_Delta_phi_ini = 0, z_sector = ''A''\<rparr>,
                   \<lparr>z_m_phi = 1, z_Delta_phi_ini = 1, z_sector = ''C''\<rparr>,
                   \<lparr>z_m_phi = 1, z_Delta_phi_ini = 2, z_sector = ''C''\<rparr>] = [(1, 1 / 2)]"
    by (simp add: zoom_group_pairs two)
  have c: "zoom_boundary_points (sort_key z_Delta_phi_ini) [\<lparr>z_m_phi = 1, z_Delta_phi_ini = 2, z_sector = ''C''\<rparr>,
                           \<lparr>z_m_phi = 1, z_Delta_phi_ini = 0, z_sector = ''A''\<rparr>,
                           \<lparr>z_m_phi = 1, z_Delta_phi_ini = 1, z_sector = ''C''\<rparr>] = [(1, 1 / 2)]"
    by (simp add: zoom_boundary_points_def b)
  show ?thesis using a b c by simp
qed

subsection \<open>The three-way classifier\<close>

lemma tail_start_div: "tail_start n = 9 * n div 10"
proof -
  have "0.9 * real n = real (9 * n) / real 10" by simp
  then have "\<lfloor>0.9 * real n\<rfloor> = \<lfloor>real (9 * n) / real 10\<rfloor>" by (simp only:)
  also have "\<dots> = int (9 * n div 10)" by (rule floor_divide_of_nat_eq)
  finally show ?thesis by (simp add: tail_start_def)
qed





lemma np_mod_id:
  assumes "0 \<le> x" and "x < y"
  shows "np_mod x y = x"
proof -
  have "0 \<le> x / y" "x / y < 1" using assms by simp_all
  then have "\<lfloor>x / y\<rfloor> = 0" by linarith
  then show ?thesis by (simp add: np_mod_def)
qed












subsection \<open>Aggregation of the responses\<close>

lemma dd_get_append:
  "dd_get (dd_append d k v) k' = (if k' = k then dd_get d k @ [v] else dd_get d k')"
  by (induction d k v rule: dd_append.induct) (auto simp: dd_get_def)

lemma keys_dd_append: "fst ` set (dd_append d k v) = insert k (fst ` set d)"
  by (induction d k v rule: dd_append.induct) auto

lemma distinct_dd_append:
  "distinct (map fst d) \<Longrightarrow> distinct (map fst (dd_append d k v))"
proof (induction d k v rule: dd_append.induct)
  case (1 k v)
  then show ?case by simp
next
  case (2 k' vs d k v)
  have "fst ` set (dd_append d k v) = insert k (fst ` set d)"
    by (rule keys_dd_append)
  with 2 show ?case by auto
qed

lemma dd_get_empty [simp]: "dd_get [] k = []"
  by (simp add: dd_get_def)

text \<open>The loop that fills the groups, from any dictionary.\<close>

lemma group_fold_get:
  "dd_get (foldl (\<lambda>groups r. case P_A r of NaN \<Rightarrow> groups
                                | Fin p \<Rightarrow> dd_append groups (m_phi r) p) d rows) m =
   dd_get d m @ samples_at rows m"
proof (induction rows arbitrary: d)
  case Nil
  then show ?case by (simp add: samples_at_def)
next
  case (Cons r rows)
  show ?case
  proof (cases "P_A r")
    case (Fin p)
    then show ?thesis
      using Cons.IH [of "dd_append d (m_phi r) p"]
      by (simp add: dd_get_append samples_at_def the_fin_def)
  next
    case NaN
    then show ?thesis using Cons.IH [of d] by (simp add: samples_at_def)
  qed
qed

lemma group_fold_keys:
  "fst ` set (foldl (\<lambda>groups r. case P_A r of NaN \<Rightarrow> groups
                                | Fin p \<Rightarrow> dd_append groups (m_phi r) p) d rows) =
   fst ` set d \<union> m_phi ` {r \<in> set rows. P_A r \<noteq> NaN}"
proof (induction rows arbitrary: d)
  case Nil
  then show ?case by simp
next
  case (Cons r rows)
  show ?case
  proof (cases "P_A r")
    case (Fin p)
    then show ?thesis
      using Cons.IH [of "dd_append d (m_phi r) p"]
      by (auto simp: keys_dd_append)
  next
    case NaN
    then show ?thesis using Cons.IH [of d] by auto
  qed
qed

lemma group_fold_distinct:
  "distinct (map fst d) \<Longrightarrow>
   distinct (map fst (foldl (\<lambda>groups r. case P_A r of NaN \<Rightarrow> groups
                                | Fin p \<Rightarrow> dd_append groups (m_phi r) p) d rows))"
proof (induction rows arbitrary: d)
  case Nil
  then show ?case by simp
next
  case (Cons r rows)
  show ?case
  proof (cases "P_A r")
    case (Fin p)
    then show ?thesis
      using Cons.IH [of "dd_append d (m_phi r) p"] Cons.prems
      by (simp add: distinct_dd_append)
  next
    case NaN
    then show ?thesis using Cons.IH [of d] Cons.prems by simp
  qed
qed

lemma group_by_mphi_get: "dd_get (group_by_mphi rows) m = samples_at rows m"
  unfolding group_by_mphi_def by (simp add: group_fold_get)

lemma group_by_mphi_keys:
  "set (map fst (group_by_mphi rows)) = m_phi ` {r \<in> set rows. P_A r \<noteq> NaN}"
  unfolding group_by_mphi_def by (simp add: group_fold_keys)

lemma group_by_mphi_sorted_keys:
  "sort (map fst (group_by_mphi rows)) =
   sorted_list_of_set (m_phi ` {r \<in> set rows. P_A r \<noteq> NaN})"
proof -
  have d: "distinct (map fst (group_by_mphi rows))"
    unfolding group_by_mphi_def by (rule group_fold_distinct) simp
  have "sorted_list_of_set (set (map fst (group_by_mphi rows))) =
        sort (remdups (map fst (group_by_mphi rows)))"
    by (rule sorted_list_of_set_sort_remdups)
  then show ?thesis using d by (simp only: distinct_remdups_id group_by_mphi_keys)
qed

lemma samples_at_nonempty:
  assumes "m \<in> m_phi ` {r \<in> set rows. P_A r \<noteq> NaN}"
  shows "samples_at rows m \<noteq> []"
proof -
  from assms obtain r where "r \<in> set rows" "P_A r \<noteq> NaN" "m_phi r = m" by auto
  then have "r \<in> set (filter (\<lambda>r. P_A r \<noteq> NaN \<and> m_phi r = m) rows)" by simp
  then have "filter (\<lambda>r. P_A r \<noteq> NaN \<and> m_phi r = m) rows \<noteq> []"
    by (auto simp: filter_empty_conv)
  then show ?thesis by (simp add: samples_at_def)
qed

lemma samples_at_filter:
  "samples_at (filter (\<lambda>r. P_A r \<noteq> NaN) rows) m = samples_at rows m"
proof -
  have "filter (\<lambda>r. P_A r \<noteq> NaN \<and> m_phi r = m) (filter (\<lambda>r. P_A r \<noteq> NaN) rows) =
        filter (\<lambda>r. P_A r \<noteq> NaN \<and> m_phi r = m) rows"
    by (induction rows) auto
  then show ?thesis by (simp add: samples_at_def)
qed

lemma compute_PA_vs_mphi_eq:
  "compute_PA_vs_mphi rows =
     (let mphi_vals = sorted_list_of_set (m_phi ` {r \<in> set rows. P_A r \<noteq> NaN})
      in (mphi_vals,
          map (\<lambda>m. np_mean (samples_at rows m)) mphi_vals,
          map (\<lambda>m. if length (samples_at rows m) > 1 then np_std_ddof1 (samples_at rows m) else 0)
              mphi_vals))"
  by (simp add: compute_PA_vs_mphi_def group_by_mphi_sorted_keys group_by_mphi_get Let_def)

lemma compute_PA_vs_mphi_drop_NaN:
  "compute_PA_vs_mphi (filter (\<lambda>r. P_A r \<noteq> NaN) rows) = compute_PA_vs_mphi rows"
proof -
  have "{r \<in> set (filter (\<lambda>r. P_A r \<noteq> NaN) rows). P_A r \<noteq> NaN} = {r \<in> set rows. P_A r \<noteq> NaN}"
    by auto
  then show ?thesis by (simp add: compute_PA_vs_mphi_eq samples_at_filter)
qed

lemma read_row_counts:
  assumes "read_row float_of r = Some row"
    and "\<not> (r ''P_A'' \<noteq> None \<and> truthy (dict_get r ''P_A''))"
  shows "\<exists>N_A N_total. py_float float_of (dict_get r ''N_A'') = Some N_A
           \<and> py_float float_of (dict_get r ''N_total'') = Some N_total
           \<and> pos_f N_total \<and> raw_P_A row = div_f N_A N_total"
  using assms
  by (auto simp: read_row_def Let_def split: option.splits if_splits)

lemma div_f_unit:
  assumes "pos_f (Fin n)" and "0 \<le> a" and "a \<le> n"
  shows "div_f (Fin a) (Fin n) = Fin (a / n) \<and> 0 \<le> a / n \<and> a / n \<le> 1"
  using assms by (simp add: pos_f_def div_f_def)

subsection \<open>Grid assembly\<close>

lemma fill_fold_get:
  "dd_get (foldl (\<lambda>grid (m, k, p). dd_append grid (m, k) p) d rows) key =
   dd_get d key @ map (snd \<circ> snd) (filter (\<lambda>r. (fst r, fst (snd r)) = key) rows)"
proof (induction rows arbitrary: d)
  case Nil
  then show ?case by simp
next
  case (Cons r rows)
  obtain m k p where r: "r = (m, k, p)" by (cases r) auto
  show ?case
    using Cons.IH [of "dd_append d (m, k) p"]
    by (simp add: r dd_get_append)
qed

lemma fill_grid_get:
  "dd_get (fill_grid rows) key = map (snd \<circ> snd) (filter (\<lambda>r. (fst r, fst (snd r)) = key) rows)"
  by (simp add: fill_grid_def fill_fold_get)

text \<open>
  A cell of the continuous grid: NaN when no row has the cell's pair of coordinates, the
  mean of the responses of the rows at that pair otherwise.
\<close>

lemma build_grid_cell:
  assumes "build_grid rows = (mphi_vals, krot_vals, PA_grid)"
    and "i < length krot_vals" and "j < length mphi_vals"
  shows "PA_grid ! i ! j =
     (let vals = map (snd \<circ> snd)
                   (filter (\<lambda>r. (fst r, fst (snd r)) = (mphi_vals ! j, krot_vals ! i)) rows)
      in if vals = [] then NaN else np_mean_f vals)"
proof -
  from assms(1) have g: "PA_grid = map (\<lambda>k. map (\<lambda>m. let vals = dd_get (fill_grid rows) (m, k)
                                         in if vals \<noteq> [] then np_mean_f vals else NaN)
                                   mphi_vals) krot_vals"
    by (auto simp: build_grid_def Let_def)
  show ?thesis
    using assms(2,3) by (simp add: g fill_grid_get Let_def)
qed

text \<open>
  Claim C6, on two inputs. The continuous grid averages the two responses 0.4 and 0.6
  of one cell to 0.5, leaves the two cells without a row NaN, and keeps them apart from
  the cell whose response is 0. The grid of sector codes starts from zeros: its two
  cells without a row hold 0, which is the code of sector A.
\<close>

theorem sector_grid_missing_cell_is_A:
  "build_grid [(1, 0, Fin (4 / 10)), (2, 1, Fin 0), (1, 0, Fin (6 / 10))] =
     ([1, 2], [0, 1], [[Fin (1 / 2), NaN], [NaN, Fin 0]])
   \<and> sector_grid
     [\<lparr>s_m_phi = 1, s_k_rot = 0, s_q = 1, s_delta_phi_ini = 1 / 100, s_sector = ''C''\<rparr>,
      \<lparr>s_m_phi = 2, s_k_rot = 1, s_q = 1, s_delta_phi_ini = 1 / 100, s_sector = ''B''\<rparr>] =
     Inr ([1, 2], [0, 1], [[2, 0], [0, 1]])
   \<and> code_get ''A'' = 0"
  by (simp add: build_grid_def fill_grid_def dd_get_def np_mean_f_def np_mean_def the_fin_def
      sector_grid_def code_get_def Let_def)

subsection \<open>The continuous boundary extractor\<close>

lemma sign_change_iff: "sign_change t r1 r2 \<longleftrightarrow> (r1 < t \<and> t < r2) \<or> (r2 < t \<and> t < r1)"
proof -
  have "sgn (r1 - t) * sgn (r2 - t) = sgn ((r1 - t) * (r2 - t))"
    by (simp add: sgn_mult)
  then have "sign_change t r1 r2 \<longleftrightarrow> (r1 - t) * (r2 - t) < 0"
    by (simp add: sign_change_def)
  then show ?thesis
    by (auto simp: mult_less_0_iff)
qed

lemma sign_change_neq: "sign_change t r1 r2 \<Longrightarrow> r1 \<noteq> r2"
  by (auto simp: sign_change_iff)

lemma sign_test_neq: "sign_test rnd t r1 r2 \<Longrightarrow> r1 \<noteq> r2"
proof
  assume st: "sign_test rnd t r1 r2" and eq: "r1 = r2"
  from st [unfolded sign_test_def eq]
  have "sgn (rnd (r2 - t)) * sgn (rnd (r2 - t)) < 0" .
  moreover have "0 \<le> sgn (rnd (r2 - t)) * sgn (rnd (r2 - t))" by (rule zero_le_square)
  ultimately show False by linarith
qed

lemma sign_test_exact: "sign_test (\<lambda>x. x) t r1 r2 \<longleftrightarrow> sign_change t r1 r2"
  by (simp add: sign_test_def sign_change_def)

lemma sign_test_preserving:
  "(\<And>x. sgn (rnd x) = sgn x) \<Longrightarrow> sign_test rnd t r1 r2 \<longleftrightarrow> sign_change t r1 r2"
  by (simp add: sign_test_def sign_change_def)

text \<open>The functions that sort indices.\<close>

lemma is_argsort_sort_key:
  assumes "\<And>xs. distinct (p xs) \<and> set (p xs) = {0..<length xs}"
  shows "is_argsort (\<lambda>xs. sort_key (\<lambda>i. xs ! i) (p xs))"
  unfolding is_argsort_def using assms by (simp add: sorted_sort_key)

lemma is_argsort_stable: "is_argsort stable_argsort"
proof -
  have "is_argsort (\<lambda>xs. sort_key (\<lambda>i. xs ! i) [0..<length xs])"
    by (rule is_argsort_sort_key) simp
  then show ?thesis by (simp add: stable_argsort_def [abs_def])
qed

lemma is_argsort_reversed: "is_argsort reversed_argsort"
proof -
  have "is_argsort (\<lambda>xs. sort_key (\<lambda>i. xs ! i) (rev [0..<length xs]))"
    by (rule is_argsort_sort_key) simp
  then show ?thesis by (simp add: reversed_argsort_def [abs_def])
qed

lemma length_is_argsort:
  assumes "is_argsort srt"
  shows "length (srt xs) = length xs"
proof -
  from assms have d: "distinct (srt xs)" and s: "set (srt xs) = {0..<length xs}"
    by (simp_all add: is_argsort_def)
  have "length (srt xs) = card (set (srt xs))" using d by (simp add: distinct_card)
  then show ?thesis by (simp add: s)
qed

text \<open>On strictly increasing values every such function returns the indices in order.\<close>

lemma is_argsort_strict:
  assumes "is_argsort srt" and "sorted xs" and "distinct xs"
  shows "srt xs = [0..<length xs]"
proof (rule sorted_distinct_set_unique)
  let ?s = "srt xs"
  from assms(1) have d: "distinct ?s" and s: "set ?s = {0..<length xs}"
    and v: "sorted (map (nth xs) ?s)"
    by (simp_all add: is_argsort_def)
  have "sorted_wrt (<) xs" using assms(2,3) by (simp add: strict_sorted_iff)
  then have strict: "xs ! a < xs ! b" if "a < b" "b < length xs" for a b
    using that by (simp add: sorted_wrt_iff_nth_less)
  show "sorted ?s"
    unfolding sorted_iff_nth_mono
  proof (intro allI impI)
    fix i j assume ij: "i \<le> j" "j < length ?s"
    have bi: "?s ! i < length xs" and bj: "?s ! j < length xs"
      using ij s nth_mem [of i ?s] nth_mem [of j ?s] by auto
    show "?s ! i \<le> ?s ! j"
    proof (rule ccontr)
      assume "\<not> ?s ! i \<le> ?s ! j"
      then have lt: "?s ! j < ?s ! i" by simp
      then have "xs ! (?s ! j) < xs ! (?s ! i)" using bi by (rule strict)
      moreover have "map (nth xs) ?s ! i \<le> map (nth xs) ?s ! j"
        using v ij by (simp add: sorted_iff_nth_mono del: nth_map)
      ultimately show False using ij by simp
    qed
  qed
  show "distinct ?s" by (rule d)
  show "sorted [0..<length xs]" by simp
  show "distinct [0..<length xs]" by simp
  show "set ?s = set [0..<length xs]" using s by simp
qed

lemma take_idx_is_argsort:
  assumes "is_argsort srt" and "length xs \<le> length a"
  shows "take_idx a (srt xs) = Inr (map (nth a) (srt xs))"
proof -
  from assms(1) have "set (srt xs) = {0..<length xs}" by (simp add: is_argsort_def)
  then have "list_all (\<lambda>i. i < length a) (srt xs)"
    using assms(2) by (auto simp: list_all_iff)
  then show ?thesis by (simp add: take_idx_def)
qed

lemma length_PA_sorted:
  "is_argsort srt \<Longrightarrow> length (PA_sorted srt mphi_vals PA_means) = length mphi_vals"
  by (simp add: PA_sorted_def length_is_argsort)

lemma PA_sorted_strict:
  assumes "is_argsort srt" and "sorted mphi_vals" and "distinct mphi_vals"
    and "length mphi_vals = length PA_means"
  shows "PA_sorted srt mphi_vals PA_means = PA_means"
  using assms by (simp add: PA_sorted_def is_argsort_strict map_nth)

lemma mphi_sorted_strict:
  assumes "is_argsort srt" and "sorted mphi_vals" and "distinct mphi_vals"
  shows "map (nth mphi_vals) (srt mphi_vals) = mphi_vals"
  using assms by (simp add: is_argsort_strict map_nth)

text \<open>The loop on a range of indices none of which is a crossing, and on a first crossing.\<close>

lemma crossing_loop_none:
  "(\<And>j. j \<in> set js \<Longrightarrow> \<not> S ! j * S ! (j + 1) < 0) \<Longrightarrow> crossing_loop rnd M P S t js = None"
  by (induction js) simp_all

lemma crossing_loop_skip:
  "(\<And>j. j \<in> set js \<Longrightarrow> \<not> S ! j * S ! (j + 1) < 0) \<Longrightarrow>
   crossing_loop rnd M P S t (js @ rest) = crossing_loop rnd M P S t rest"
  by (induction js) simp_all

lemma crossing_loop_first:
  assumes "\<And>j. j \<in> set js \<Longrightarrow> \<not> S ! j * S ! (j + 1) < 0"
    and "S ! i * S ! (i + 1) < 0" and "P ! (i + 1) \<noteq> P ! i"
  shows "crossing_loop rnd M P S t (js @ i # rest) =
         Some (interpolate_rnd rnd t (M ! i) (P ! i) (M ! (i + 1)) (P ! (i + 1)))"
proof -
  have "crossing_loop rnd M P S t (js @ i # rest) = crossing_loop rnd M P S t (i # rest)"
    using assms(1) by (rule crossing_loop_skip)
  also have "\<dots> = Some (interpolate_rnd rnd t (M ! i) (P ! i) (M ! (i + 1)) (P ! (i + 1)))"
    using assms(2,3) by (simp add: interpolate_rnd_def Let_def)
  finally show ?thesis .
qed

lemma find_mphi_crit_unfold:
  assumes "is_argsort srt" and "length mphi_vals \<le> length PA_means"
  shows "find_mphi_crit rnd srt mphi_vals PA_means target =
     Inr (crossing_loop rnd (map (nth mphi_vals) (srt mphi_vals)) (PA_sorted srt mphi_vals PA_means)
            (map sgn (map (\<lambda>p. rnd (p - target)) (PA_sorted srt mphi_vals PA_means))) target
            [0..<length mphi_vals - 1])"
  using assms
  by (simp add: find_mphi_crit_def take_idx_is_argsort PA_sorted_def Let_def length_is_argsort)

lemma upt_split: "i < n \<Longrightarrow> [0..<n] = [0..<i] @ i # [Suc i..<n]"
proof -
  assume "i < n"
  then have "[0..<n] = [0..<i] @ [i..<n]"
    using upt_add_eq_append [of 0 i "n - i"] by simp
  also have "[i..<n] = i # [Suc i..<n]"
    using \<open>i < n\<close> by (rule upt_conv_Cons)
  finally show ?thesis .
qed

lemma sign_nth:
  "i + 1 < length P \<Longrightarrow>
   map sgn (map (\<lambda>p. rnd (p - t)) P) ! i * map sgn (map (\<lambda>p. rnd (p - t)) P) ! (i + 1) < 0
     \<longleftrightarrow> sign_test rnd t (P ! i) (P ! (i + 1))"
  by (simp add: sign_test_def)

text \<open>The result of the scan, for responses already in scan order.\<close>

lemma scan_first:
  assumes "length P = n" and "i + 1 < n" and "sign_test rnd t (P ! i) (P ! (i + 1))"
    and "\<And>j. j < i \<Longrightarrow> \<not> sign_test rnd t (P ! j) (P ! (j + 1))"
  shows "crossing_loop rnd M P (map sgn (map (\<lambda>p. rnd (p - t)) P)) t [0..<n - 1] =
         Some (interpolate_rnd rnd t (M ! i) (P ! i) (M ! (i + 1)) (P ! (i + 1)))"
proof -
  let ?S = "map sgn (map (\<lambda>p. rnd (p - t)) P)"
  have "crossing_loop rnd M P ?S t ([0..<i] @ i # [Suc i..<n - 1])
        = Some (interpolate_rnd rnd t (M ! i) (P ! i) (M ! (i + 1)) (P ! (i + 1)))"
  proof (rule crossing_loop_first)
    fix j assume "j \<in> set [0..<i]"
    then have j: "j < i" by simp
    then have "j + 1 < length P" using assms(1,2) by simp
    then show "\<not> ?S ! j * ?S ! (j + 1) < 0"
      using assms(4) [OF j] sign_nth [of j P rnd t] by blast
  next
    have "i + 1 < length P" using assms(1,2) by simp
    then show "?S ! i * ?S ! (i + 1) < 0"
      using assms(3) sign_nth [of i P rnd t] by blast
  next
    show "P ! (i + 1) \<noteq> P ! i" using sign_test_neq [OF assms(3)] by simp
  qed
  moreover have "[0..<n - 1] = [0..<i] @ i # [Suc i..<n - 1]"
    using assms(2) by (intro upt_split) simp
  ultimately show ?thesis by simp
qed

lemma scan_none_iff:
  assumes "length P = n"
  shows "crossing_loop rnd M P (map sgn (map (\<lambda>p. rnd (p - t)) P)) t [0..<n - 1] = None \<longleftrightarrow>
         (\<forall>i. i + 1 < n \<longrightarrow> \<not> sign_test rnd t (P ! i) (P ! (i + 1)))"
proof
  let ?S = "map sgn (map (\<lambda>p. rnd (p - t)) P)"
  assume none: "crossing_loop rnd M P ?S t [0..<n - 1] = None"
  show "\<forall>i. i + 1 < n \<longrightarrow> \<not> sign_test rnd t (P ! i) (P ! (i + 1))"
  proof (rule ccontr)
    assume "\<not> ?thesis"
    then have ex: "\<exists>i. i + 1 < n \<and> sign_test rnd t (P ! i) (P ! (i + 1))" by blast
    define i where "i = (LEAST i. i + 1 < n \<and> sign_test rnd t (P ! i) (P ! (i + 1)))"
    have i: "i + 1 < n" "sign_test rnd t (P ! i) (P ! (i + 1))"
      using LeastI_ex [OF ex] by (simp_all add: i_def)
    have least: "\<not> sign_test rnd t (P ! j) (P ! (j + 1))" if "j < i" for j
    proof
      assume "sign_test rnd t (P ! j) (P ! (j + 1))"
      then have "j + 1 < n \<and> sign_test rnd t (P ! j) (P ! (j + 1))" using i(1) that by simp
      then have "i \<le> j" unfolding i_def by (rule Least_le)
      with that show False by simp
    qed
    have "crossing_loop rnd M P ?S t [0..<n - 1] =
          Some (interpolate_rnd rnd t (M ! i) (P ! i) (M ! (i + 1)) (P ! (i + 1)))"
      using assms i least by (rule scan_first)
    with none show False by simp
  qed
next
  let ?S = "map sgn (map (\<lambda>p. rnd (p - t)) P)"
  assume no: "\<forall>i. i + 1 < n \<longrightarrow> \<not> sign_test rnd t (P ! i) (P ! (i + 1))"
  show "crossing_loop rnd M P ?S t [0..<n - 1] = None"
  proof (rule crossing_loop_none)
    fix j assume "j \<in> set [0..<n - 1]"
    then have j: "j + 1 < n" by auto
    then have "j + 1 < length P" using assms by simp
    then show "\<not> ?S ! j * ?S ! (j + 1) < 0"
      using no j sign_nth [of j P rnd t] by blast
  qed
qed

lemma interpolate_rnd_exact:
  "interpolate_rnd (\<lambda>x. x) t c1 r1 c2 r2 = interpolate t c1 r1 c2 r2"
  by (simp add: interpolate_rnd_def interpolate_def)

lemma interpolate_between:
  assumes "sign_change t r1 r2" and "c1 \<le> c2"
  shows "c1 \<le> interpolate t c1 r1 c2 r2 \<and> interpolate t c1 r1 c2 r2 \<le> c2"
proof -
  define f where "f = (t - r1) / (r2 - r1)"
  have f: "0 \<le> f \<and> f \<le> 1"
    using assms(1) unfolding f_def sign_change_iff
    by (auto simp: divide_simps)
  have "0 \<le> f * (c2 - c1)" using f assms(2) by simp
  moreover have "f * (c2 - c1) \<le> 1 * (c2 - c1)"
    using f assms(2) by (intro mult_right_mono) simp_all
  ultimately show ?thesis by (simp add: interpolate_def f_def)
qed

lemma interpolate_linear:
  assumes "r1 = a * c1 + b" and "r2 = a * c2 + b" and "r1 \<noteq> r2"
  shows "a * interpolate t c1 r1 c2 r2 + b = t"
proof -
  have a: "a \<noteq> 0" and c: "c2 - c1 \<noteq> 0" using assms by auto
  have "r2 - r1 = a * (c2 - c1)" using assms(1,2) by (simp add: algebra_simps)
  then have "interpolate t c1 r1 c2 r2 = c1 + (t - r1) / a"
    using a c by (simp add: interpolate_def)
  then show ?thesis using a assms(1) by (simp add: field_simps)
qed

subsection \<open>Rounding to binary64\<close>

lemma rne_bounds: "\<lfloor>y\<rfloor> \<le> rne y \<and> rne y \<le> \<lfloor>y\<rfloor> + 1"
  by (simp add: rne_def Let_def)

lemma fl64_exponent:
  assumes "2 powi e \<le> \<bar>x\<bar>" and "\<bar>x\<bar> < 2 powi (e + 1)"
  shows "\<lfloor>log 2 \<bar>x\<bar>\<rfloor> = e"
proof -
  have pos: "0 < \<bar>x\<bar>"
    using assms(1) zero_less_power_int [of "2::real" e] by linarith
  have p: "(2::real) powr real_of_int k = 2 powi k" for k
    by (rule powr_real_of_int') simp_all
  have "2 powr real_of_int e \<le> \<bar>x\<bar> \<and> \<bar>x\<bar> < 2 powr (real_of_int e + 1)"
    using assms p [of e] p [of "e + 1"] by simp
  then show ?thesis
    using floor_log_eq_powr_iff [of "\<bar>x\<bar>" 2 e] pos by simp
qed

lemma fl64_eval:
  assumes "2 powi e \<le> \<bar>x\<bar>" and "\<bar>x\<bar> < 2 powi (e + 1)"
  shows "fl64 x = of_int (rne (x / 2 powi (e - 52))) * 2 powi (e - 52)"
proof -
  have "0 < \<bar>x\<bar>"
    using assms(1) zero_less_power_int [of "2::real" e] by linarith
  then have "x \<noteq> 0" by auto
  then show ?thesis
    by (simp add: fl64_def fl64_exponent [OF assms] Let_def)
qed

lemma fl64_half:
  assumes "1 / 2 \<le> \<bar>x\<bar>" and "\<bar>x\<bar> < 1"
  shows "fl64 x = of_int (rne (x * 2 ^ 53)) / 2 ^ 53"
proof -
  have a: "(2::real) powi (- 1) = 1 / 2" by (simp add: power_int_def)
  have b: "(2::real) powi (- 1 + 1) = 1" by simp
  have c: "(2::real) powi (- 1 - 52) = 1 / 2 ^ 53" by (simp add: power_int_def field_simps)
  have "fl64 x = of_int (rne (x / 2 powi (- 1 - 52))) * 2 powi (- 1 - 52)"
    by (rule fl64_eval) (use assms a b in simp_all)
  then show ?thesis by (simp add: c)
qed

lemma fl64_one:
  assumes "1 \<le> \<bar>x\<bar>" and "\<bar>x\<bar> < 2"
  shows "fl64 x = of_int (rne (x * 2 ^ 52)) / 2 ^ 52"
proof -
  have c: "(2::real) powi (0 - 52) = 1 / 2 ^ 52" by (simp add: power_int_def field_simps)
  have "fl64 x = of_int (rne (x / 2 powi (0 - 52))) * 2 powi (0 - 52)"
    by (rule fl64_eval) (use assms in simp_all)
  then show ?thesis by (simp add: c)
qed

text \<open>Rounding keeps the sign: no number but 0 rounds to 0.\<close>

lemma fl64_sgn: "sgn (fl64 x) = sgn x"
proof (cases "x = 0")
  case True
  then show ?thesis by (simp add: fl64_def)
next
  case False
  define e where "e = \<lfloor>log 2 \<bar>x\<bar>\<rfloor>"
  define u :: real where "u = 2 powi (e - 52)"
  have u: "0 < u" by (simp add: u_def zero_less_power_int)
  have pos: "0 < \<bar>x\<bar>" using False by simp
  have p: "(2::real) powr real_of_int k = 2 powi k" for k
    by (rule powr_real_of_int') simp_all
  have "2 powr real_of_int e \<le> \<bar>x\<bar>"
    using floor_log_eq_powr_iff [of "\<bar>x\<bar>" 2 e] pos by (simp add: e_def)
  then have lo: "2 powi e \<le> \<bar>x\<bar>" by (simp add: p)
  have "(2::real) powi (52 + (e - 52)) = 2 powi 52 * 2 powi (e - 52)"
    by (rule power_int_add) simp
  then have "(2::real) powi e = 2 ^ 52 * 2 powi (e - 52)"
    by simp
  then have big: "2 ^ 52 * u \<le> \<bar>x\<bar>" using lo by (simp add: u_def)
  have fl: "fl64 x = of_int (rne (x / u)) * u"
    using False by (simp add: fl64_def e_def u_def Let_def)
  show ?thesis
  proof (cases "0 < x")
    case True
    then have "2 ^ 52 \<le> x / u" using big u by (simp add: pos_le_divide_eq)
    moreover have "(1::real) \<le> 2 ^ 52" by simp
    ultimately have "(1::real) \<le> x / u" by linarith
    then have "1 \<le> \<lfloor>x / u\<rfloor>" by linarith
    then have "0 < rne (x / u)" using rne_bounds [of "x / u"] by linarith
    then have "0 < fl64 x" using u by (simp add: fl)
    then show ?thesis using True by simp
  next
    case neg: False
    then have x: "x < 0" using False by simp
    then have "2 ^ 52 * u \<le> - x" using big by simp
    then have "2 ^ 52 \<le> (- x) / u" by (rule iffD2 [OF pos_le_divide_eq [OF u]])
    then have "2 ^ 52 \<le> - (x / u)" by simp
    moreover have "(2::real) \<le> 2 ^ 52" by simp
    ultimately have "x / u \<le> - 2" by simp
    then have "\<lfloor>x / u\<rfloor> \<le> - 2" by linarith
    then have "rne (x / u) < 0" using rne_bounds [of "x / u"] by linarith
    then have "fl64 x < 0" using u by (simp add: fl mult_neg_pos)
    then show ?thesis using x by simp
  qed
qed

text \<open>
  The six roundings of the interpolation on the coordinates 0.3 and 0.9, the responses 1
  and \<open>0.5 - 2^-54\<close> (the float printed 0.49999999999999994) and the target 0.5, each
  number written as the fraction the float is.
\<close>

lemma round_example_1: "fl64 (1 / 2 - 1) = - (1 / 2)"
proof -
  have "fl64 (1 / 2 - 1) = of_int (rne ((1 / 2 - 1) * 2 ^ 53)) / 2 ^ 53"
    by (rule fl64_half) simp_all
  also have "rne ((1 / 2 - 1) * 2 ^ 53) = - 4503599627370496"
    by (simp add: rne_def Let_def)
  finally show ?thesis by simp
qed

lemma round_example_2: "fl64 (9007199254740991 / 2 ^ 54 - 1) = - (1 / 2)"
proof -
  have "fl64 (9007199254740991 / 2 ^ 54 - 1) =
        of_int (rne ((9007199254740991 / 2 ^ 54 - 1) * 2 ^ 53)) / 2 ^ 53"
    by (rule fl64_half) simp_all
  also have "rne ((9007199254740991 / 2 ^ 54 - 1) * 2 ^ 53) = - 4503599627370496"
    by (simp add: rne_def Let_def)
  finally show ?thesis by simp
qed

lemma round_example_3: "fl64 (- (1 / 2) / - (1 / 2)) = 1"
proof -
  have "fl64 (- (1 / 2) / - (1 / 2)) = of_int (rne ((- (1 / 2) / - (1 / 2)) * 2 ^ 52)) / 2 ^ 52"
    by (rule fl64_one) simp_all
  also have "rne ((- (1 / 2) / - (1 / 2)) * 2 ^ 52) = 4503599627370496"
    by (simp add: rne_def Let_def)
  finally show ?thesis by simp
qed

lemma round_example_4:
  "fl64 (8106479329266893 / 2 ^ 53 - 5404319552844595 / 2 ^ 54) = 5404319552844596 / 2 ^ 53"
proof -
  have "fl64 (8106479329266893 / 2 ^ 53 - 5404319552844595 / 2 ^ 54) =
        of_int (rne ((8106479329266893 / 2 ^ 53 - 5404319552844595 / 2 ^ 54) * 2 ^ 53)) / 2 ^ 53"
    by (rule fl64_half) simp_all
  also have "rne ((8106479329266893 / 2 ^ 53 - 5404319552844595 / 2 ^ 54) * 2 ^ 53) =
             5404319552844596"
    by (simp add: rne_def Let_def)
  finally show ?thesis by simp
qed

lemma round_example_5: "fl64 (1 * (5404319552844596 / 2 ^ 53)) = 5404319552844596 / 2 ^ 53"
proof -
  have "fl64 (1 * (5404319552844596 / 2 ^ 53)) =
        of_int (rne ((1 * (5404319552844596 / 2 ^ 53)) * 2 ^ 53)) / 2 ^ 53"
    by (rule fl64_half) simp_all
  also have "rne ((1 * (5404319552844596 / 2 ^ 53)) * 2 ^ 53) = 5404319552844596"
    by (simp add: rne_def Let_def)
  finally show ?thesis by simp
qed

lemma round_example_6:
  "fl64 (5404319552844595 / 2 ^ 54 + 5404319552844596 / 2 ^ 53) = 8106479329266894 / 2 ^ 53"
proof -
  have "fl64 (5404319552844595 / 2 ^ 54 + 5404319552844596 / 2 ^ 53) =
        of_int (rne ((5404319552844595 / 2 ^ 54 + 5404319552844596 / 2 ^ 53) * 2 ^ 53)) / 2 ^ 53"
    by (rule fl64_half) simp_all
  also have "rne ((5404319552844595 / 2 ^ 54 + 5404319552844596 / 2 ^ 53) * 2 ^ 53) =
             8106479329266894"
    by (simp add: rne_def Let_def)
  finally show ?thesis by simp
qed

lemma interpolate_fl64_example:
  "interpolate_rnd fl64 (1 / 2) (5404319552844595 / 2 ^ 54) 1
     (8106479329266893 / 2 ^ 53) (9007199254740991 / 2 ^ 54) = 8106479329266894 / 2 ^ 53"
  by (simp only: interpolate_rnd_def round_example_1 round_example_2 round_example_3
      round_example_4 round_example_5 round_example_6)

subsection \<open>The first crossing and the result without one\<close>

lemma exact_sgn: "sgn (exact x) = sgn x"
  by (simp add: exact_def)

lemma sign_test_exact_iff: "sign_test exact t r1 r2 \<longleftrightarrow> sign_change t r1 r2"
  by (simp add: sign_test_def sign_change_def exact_def)

lemma interpolate_rnd_exact_eq:
  "interpolate_rnd exact t c1 r1 c2 r2 = interpolate t c1 r1 c2 r2"
  by (simp add: interpolate_rnd_def interpolate_def exact_def)

text \<open>The extractor on strictly increasing coordinates, at the first pair that passes the test.\<close>

lemma find_mphi_crit_first:
  assumes "is_argsort srt" and "sorted mphi_vals" and "distinct mphi_vals"
    and "length mphi_vals = length PA_means"
    and "i + 1 < length mphi_vals"
    and "sign_test rnd target (PA_means ! i) (PA_means ! (i + 1))"
    and "\<And>j. j < i \<Longrightarrow> \<not> sign_test rnd target (PA_means ! j) (PA_means ! (j + 1))"
  shows "find_mphi_crit rnd srt mphi_vals PA_means target =
         Inr (Some (interpolate_rnd rnd target (mphi_vals ! i) (PA_means ! i)
                      (mphi_vals ! (i + 1)) (PA_means ! (i + 1))))"
proof -
  have "find_mphi_crit rnd srt mphi_vals PA_means target =
        Inr (crossing_loop rnd mphi_vals PA_means
               (map sgn (map (\<lambda>p. rnd (p - target)) PA_means)) target
               [0..<length mphi_vals - 1])"
    using assms(1-4)
    by (simp add: find_mphi_crit_unfold PA_sorted_strict mphi_sorted_strict)
  also have "crossing_loop rnd mphi_vals PA_means
               (map sgn (map (\<lambda>p. rnd (p - target)) PA_means)) target
               [0..<length mphi_vals - 1] =
             Some (interpolate_rnd rnd target (mphi_vals ! i) (PA_means ! i)
                      (mphi_vals ! (i + 1)) (PA_means ! (i + 1)))"
    using assms(4) [symmetric] assms(5,6,7) by (rule scan_first)
  finally show ?thesis .
qed

text \<open>
  Claim C1, as the code has it. On strictly increasing coordinates with one response
  each, whatever the rounding of the arithmetic and whatever function sorts the indices:
  at the first pair of consecutive responses whose computed differences to the target
  have signs of negative product, the extractor returns
  \<open>c1 + (target - r1) / (r2 - r1) * (c2 - c1)\<close> as the arithmetic of the code evaluates
  it, each operation rounded. Pairs after the first such pair play no part. In exact
  arithmetic the returned value lies between the two coordinates of the pair, and when
  every response is \<open>a * coordinate + b\<close> it solves \<open>a * x + b = target\<close>.
\<close>

theorem find_mphi_crit_first_crossing:
  assumes "is_argsort srt" and "sorted mphi_vals" and "distinct mphi_vals"
    and "length mphi_vals = length PA_means"
    and "i + 1 < length mphi_vals"
    and "sign_test rnd target (PA_means ! i) (PA_means ! (i + 1))"
    and "\<forall>j<i. \<not> sign_test rnd target (PA_means ! j) (PA_means ! (j + 1))"
  shows "find_mphi_crit rnd srt mphi_vals PA_means target =
           Inr (Some (rnd (mphi_vals ! i
                  + rnd (rnd (rnd (target - PA_means ! i) / rnd (PA_means ! (i + 1) - PA_means ! i))
                         * rnd (mphi_vals ! (i + 1) - mphi_vals ! i)))))
         \<and> (rnd = exact \<longrightarrow>
              find_mphi_crit rnd srt mphi_vals PA_means target =
                Inr (Some (interpolate target (mphi_vals ! i) (PA_means ! i)
                             (mphi_vals ! (i + 1)) (PA_means ! (i + 1))))
              \<and> mphi_vals ! i \<le> interpolate target (mphi_vals ! i) (PA_means ! i)
                                    (mphi_vals ! (i + 1)) (PA_means ! (i + 1))
              \<and> interpolate target (mphi_vals ! i) (PA_means ! i)
                                    (mphi_vals ! (i + 1)) (PA_means ! (i + 1)) \<le> mphi_vals ! (i + 1)
              \<and> ((\<forall>k<length mphi_vals. PA_means ! k = a * mphi_vals ! k + b) \<longrightarrow>
                   a * interpolate target (mphi_vals ! i) (PA_means ! i)
                                    (mphi_vals ! (i + 1)) (PA_means ! (i + 1)) + b = target))"
proof -
  let ?v = "interpolate target (mphi_vals ! i) (PA_means ! i)
              (mphi_vals ! (i + 1)) (PA_means ! (i + 1))"
  have res: "find_mphi_crit rnd srt mphi_vals PA_means target =
         Inr (Some (interpolate_rnd rnd target (mphi_vals ! i) (PA_means ! i)
                      (mphi_vals ! (i + 1)) (PA_means ! (i + 1))))"
    using assms by (intro find_mphi_crit_first) simp_all
  have first: "find_mphi_crit rnd srt mphi_vals PA_means target =
           Inr (Some (rnd (mphi_vals ! i
                  + rnd (rnd (rnd (target - PA_means ! i) / rnd (PA_means ! (i + 1) - PA_means ! i))
                         * rnd (mphi_vals ! (i + 1) - mphi_vals ! i)))))"
    using res by (simp only: interpolate_rnd_def)
  have ex: "find_mphi_crit rnd srt mphi_vals PA_means target = Inr (Some ?v)
            \<and> mphi_vals ! i \<le> ?v \<and> ?v \<le> mphi_vals ! (i + 1)
            \<and> ((\<forall>k<length mphi_vals. PA_means ! k = a * mphi_vals ! k + b) \<longrightarrow>
                 a * ?v + b = target)"
    if e: "rnd = exact"
  proof -
    have sc: "sign_change target (PA_means ! i) (PA_means ! (i + 1))"
      using assms(6) by (simp add: e sign_test_exact_iff)
    have r: "find_mphi_crit rnd srt mphi_vals PA_means target = Inr (Some ?v)"
      using res by (simp add: e interpolate_rnd_exact_eq)
    have le: "mphi_vals ! i \<le> mphi_vals ! (i + 1)"
      using assms(2,5) by (simp add: sorted_iff_nth_mono)
    have btw: "mphi_vals ! i \<le> ?v \<and> ?v \<le> mphi_vals ! (i + 1)"
      using sc le by (rule interpolate_between)
    have lin: "a * ?v + b = target"
      if "\<forall>k<length mphi_vals. PA_means ! k = a * mphi_vals ! k + b"
    proof (rule interpolate_linear)
      show "PA_means ! i = a * mphi_vals ! i + b" using that assms(5) by simp
      show "PA_means ! (i + 1) = a * mphi_vals ! (i + 1) + b" using that assms(5) by simp
      show "PA_means ! i \<noteq> PA_means ! (i + 1)" using sc by (rule sign_change_neq)
    qed
    show ?thesis using r btw lin by blast
  qed
  show ?thesis using first ex by blast
qed

theorem find_mphi_crit_first_crossing_witness:
  "is_argsort stable_argsort
   \<and> sorted [0, 1, 3, 4 :: real] \<and> distinct [0, 1, 3, 4 :: real]
   \<and> sign_test exact 0.5 ([0.1, 0.3, 0.7, 0.9] ! 1) ([0.1, 0.3, 0.7, 0.9] ! 2)
   \<and> \<not> sign_test exact 0.5 ([0.1, 0.3, 0.7, 0.9] ! 0) ([0.1, 0.3, 0.7, 0.9] ! 1)
   \<and> [0.1, 0.3, 0.7, 0.9] = map (\<lambda>c. 0.2 * c + 0.1) [0, 1, 3, 4 :: real]
   \<and> find_mphi_crit exact stable_argsort [0, 1, 3, 4] [0.1, 0.3, 0.7, 0.9] 0.5 = Inr (Some 2)"
proof -
  have s: "sorted [0, 1, 3, 4 :: real]" by simp
  have d: "distinct [0, 1, 3, 4 :: real]" by simp
  have l: "length [0, 1, 3, 4 :: real] = length [0.1, 0.3, 0.7, 0.9 :: real]" by simp
  have i: "1 + 1 < length [0, 1, 3, 4 :: real]" by simp
  have c: "sign_test exact 0.5 ([0.1, 0.3, 0.7, 0.9] ! 1) ([0.1, 0.3, 0.7, 0.9] ! (1 + 1))"
    by (simp add: sign_test_exact_iff sign_change_iff)
  have n: "\<forall>j<1. \<not> sign_test exact 0.5 ([0.1, 0.3, 0.7, 0.9] ! j) ([0.1, 0.3, 0.7, 0.9] ! (j + 1))"
    by (simp add: sign_test_exact_iff sign_change_iff)
  note t = find_mphi_crit_first_crossing [OF is_argsort_stable s d l i c n, of 0 0]
  have "find_mphi_crit exact stable_argsort [0, 1, 3, 4] [0.1, 0.3, 0.7, 0.9] 0.5 =
        Inr (Some (interpolate 0.5 ([0, 1, 3, 4] ! 1) ([0.1, 0.3, 0.7, 0.9] ! 1)
                     ([0, 1, 3, 4] ! (1 + 1)) ([0.1, 0.3, 0.7, 0.9] ! (1 + 1))))"
    using t by blast
  then have r: "find_mphi_crit exact stable_argsort [0, 1, 3, 4] [0.1, 0.3, 0.7, 0.9] 0.5 =
                Inr (Some 2)"
    by (simp add: interpolate_def)
  show ?thesis
    using is_argsort_stable r c n by (simp add: sign_test_exact_iff sign_change_iff)
qed

text \<open>
  Claim C1 as the specification states it fails on the code in two ways. In binary64,
  on the coordinates 0.3 and 0.9 with the responses 1 and 0.49999999999999994 and the
  target 0.5, the returned coordinate is 0.9000000000000001, above the upper coordinate
  of the pair, while the exact value of the formula is not above it. And on sorted
  coordinates with a tie the result depends on the order in which the sort visits the
  equal coordinates: one admissible order returns 0.5, another returns None.
\<close>

theorem find_mphi_crit_rounding_and_ties:
  "find_mphi_crit fl64 stable_argsort
     [5404319552844595 / 2 ^ 54, 8106479329266893 / 2 ^ 53]
     [1, 9007199254740991 / 2 ^ 54] (1 / 2) = Inr (Some (8106479329266894 / 2 ^ 53))
   \<and> (8106479329266893 / 2 ^ 53 :: real) < 8106479329266894 / 2 ^ 53
   \<and> interpolate (1 / 2) (5404319552844595 / 2 ^ 54) 1
        (8106479329266893 / 2 ^ 53) (9007199254740991 / 2 ^ 54) \<le> 8106479329266893 / 2 ^ 53
   \<and> sorted [0, 1, 1 :: real]
   \<and> is_argsort stable_argsort \<and> is_argsort reversed_argsort
   \<and> find_mphi_crit exact stable_argsort [0, 1, 1] [1 / 4, 3 / 4, 1 / 2] (1 / 2) = Inr (Some (1 / 2))
   \<and> find_mphi_crit exact reversed_argsort [0, 1, 1] [1 / 4, 3 / 4, 1 / 2] (1 / 2) = Inr None"
proof -
  let ?m = "[5404319552844595 / 2 ^ 54, 8106479329266893 / 2 ^ 53] :: real list"
  let ?p = "[1, 9007199254740991 / 2 ^ 54] :: real list"
  have st: "sign_test fl64 (1 / 2) (?p ! 0) (?p ! (0 + 1))"
    by (simp add: sign_test_def fl64_sgn)
  have "find_mphi_crit fl64 stable_argsort ?m ?p (1 / 2) =
        Inr (Some (interpolate_rnd fl64 (1 / 2) (?m ! 0) (?p ! 0) (?m ! (0 + 1)) (?p ! (0 + 1))))"
    by (rule find_mphi_crit_first [OF is_argsort_stable _ _ _ _ st]) simp_all
  then have a: "find_mphi_crit fl64 stable_argsort ?m ?p (1 / 2) =
                Inr (Some (8106479329266894 / 2 ^ 53))"
    using interpolate_fl64_example by simp
  have b: "(8106479329266893 / 2 ^ 53 :: real) < 8106479329266894 / 2 ^ 53" by simp
  have "sign_change (1 / 2) 1 (9007199254740991 / 2 ^ 54)"
    by (simp add: sign_change_iff)
  moreover have "(5404319552844595 / 2 ^ 54 :: real) \<le> 8106479329266893 / 2 ^ 53" by simp
  ultimately have c: "interpolate (1 / 2) (5404319552844595 / 2 ^ 54) 1
        (8106479329266893 / 2 ^ 53) (9007199254740991 / 2 ^ 54) \<le> 8106479329266893 / 2 ^ 53"
    using interpolate_between by blast
  have d: "find_mphi_crit exact stable_argsort [0, 1, 1] [1 / 4, 3 / 4, 1 / 2] (1 / 2) =
           Inr (Some (1 / 2))"
    by (simp add: find_mphi_crit_def take_idx_def stable_argsort_def exact_def upt_rec Let_def)
  have e: "find_mphi_crit exact reversed_argsort [0, 1, 1] [1 / 4, 3 / 4, 1 / 2] (1 / 2) = Inr None"
    by (simp add: find_mphi_crit_def take_idx_def reversed_argsort_def exact_def upt_rec Let_def)
  show ?thesis
    using a b c d e is_argsort_stable is_argsort_reversed by simp
qed

text \<open>
  Claim C8. With a response for every coordinate, whatever function sorts the indices
  and for every rounding that keeps the sign (exact arithmetic and binary64 do), the
  extractor never raises, and it returns None exactly when no two consecutive
  responses, in the order of the scan, lie on opposite sides of the target. None is a
  value of its own, different from every numeric result.
\<close>

theorem find_mphi_crit_no_crossing:
  assumes "is_argsort srt" and "\<forall>x. sgn (rnd x) = sgn x"
    and "length mphi_vals \<le> length PA_means"
  shows "(find_mphi_crit rnd srt mphi_vals PA_means target = Inr None \<longleftrightarrow>
          (\<forall>i. i + 1 < length mphi_vals \<longrightarrow>
             \<not> sign_change target (PA_sorted srt mphi_vals PA_means ! i)
                                  (PA_sorted srt mphi_vals PA_means ! (i + 1))))
         \<and> (\<forall>e. find_mphi_crit rnd srt mphi_vals PA_means target \<noteq> Inl e)
         \<and> (\<forall>v. Inr None \<noteq> (Inr (Some v) :: py_error + real option))"
proof -
  let ?P = "PA_sorted srt mphi_vals PA_means"
  have eq: "find_mphi_crit rnd srt mphi_vals PA_means target =
        Inr (crossing_loop rnd (map (nth mphi_vals) (srt mphi_vals)) ?P
               (map sgn (map (\<lambda>p. rnd (p - target)) ?P)) target [0..<length mphi_vals - 1])"
    using assms(1,3) by (rule find_mphi_crit_unfold)
  have len: "length ?P = length mphi_vals" using assms(1) by (rule length_PA_sorted)
  have st: "sign_test rnd target r1 r2 \<longleftrightarrow> sign_change target r1 r2" for r1 r2
    using assms(2) by (simp add: sign_test_def sign_change_def)
  note scan_none_iff [OF len, of rnd "map (nth mphi_vals) (srt mphi_vals)" target]
  with eq show ?thesis by (simp add: st)
qed

theorem find_mphi_crit_no_crossing_witness:
  "is_argsort stable_argsort \<and> (\<forall>x. sgn (fl64 x) = sgn x)
   \<and> length [3, 1, 2 :: real] \<le> length [0.7, 0.1, 0.5 :: real]
   \<and> PA_sorted stable_argsort [3, 1, 2] [0.7, 0.1, 0.5] = [0.1, 0.5, 0.7]
   \<and> \<not> sign_change 0.5 0.1 0.5 \<and> \<not> sign_change 0.5 0.5 0.7
   \<and> find_mphi_crit fl64 stable_argsort [3, 1, 2] [0.7, 0.1, 0.5] 0.5 = Inr None"
proof -
  have l: "length [3, 1, 2 :: real] \<le> length [0.7, 0.1, 0.5 :: real]" by simp
  have f: "\<forall>x. sgn (fl64 x) = sgn x" by (simp add: fl64_sgn)
  have p: "PA_sorted stable_argsort [3, 1, 2] [0.7, 0.1, 0.5] = [0.1, 0.5, 0.7]"
    by (simp add: PA_sorted_def stable_argsort_def upt_rec)
  have n: "\<not> sign_change 0.5 0.1 0.5 \<and> \<not> sign_change 0.5 0.5 0.7"
    by (simp add: sign_change_iff)
  have "\<forall>i. i + 1 < length [3, 1, 2 :: real] \<longrightarrow>
          \<not> sign_change 0.5 ([0.1, 0.5, 0.7] ! i) ([0.1, 0.5, 0.7] ! (i + 1))"
    using n by (auto simp: less_Suc_eq numeral_3_eq_3)
  then have "find_mphi_crit fl64 stable_argsort [3, 1, 2] [0.7, 0.1, 0.5] 0.5 = Inr None"
    using find_mphi_crit_no_crossing [OF is_argsort_stable f l, of "0.5"] p by simp
  then show ?thesis using is_argsort_stable f l p n by simp
qed

subsection \<open>Pairs of identical responses\<close>





subsection \<open>The aggregated responses and the counts\<close>

text \<open>
  Claim C7, as the code has it. For every coordinate with at least one response that is
  not NaN, the response handed to the crossing search is the mean of the samples of that
  coordinate, and the reported uncertainty is their sample standard deviation with the
  denominator \<open>N - 1\<close>, and 0 for a single sample. Rows whose response is NaN take no
  part: the result is that of the rows without them. A response read from the two count
  columns is only formed for a positive \<open>N_total\<close> and is \<open>N_A / N_total\<close>; the reader
  checks nothing else, and the response lies between 0 and 1 when
  \<open>0 \<le> N_A \<le> N_total\<close>.
\<close>

theorem compute_PA_vs_mphi_aggregates:
  assumes "compute_PA_vs_mphi rows = (mphi_vals, PA_means, PA_stds)"
  shows "mphi_vals = sorted_list_of_set (m_phi ` {r \<in> set rows. P_A r \<noteq> NaN})
    \<and> length PA_means = length mphi_vals \<and> length PA_stds = length mphi_vals
    \<and> (\<forall>i<length mphi_vals.
          samples_at rows (mphi_vals ! i) \<noteq> []
          \<and> PA_means ! i = sum_list (samples_at rows (mphi_vals ! i))
                             / real (length (samples_at rows (mphi_vals ! i)))
          \<and> PA_stds ! i =
               (if length (samples_at rows (mphi_vals ! i)) = 1 then 0
                else sqrt (sum_list (map (\<lambda>x. (x - PA_means ! i) ^ 2)
                                         (samples_at rows (mphi_vals ! i)))
                           / (real (length (samples_at rows (mphi_vals ! i))) - 1))))
    \<and> mphi_crit_of_rows rnd srt rows = find_mphi_crit rnd srt mphi_vals PA_means TARGET_PA
    \<and> compute_PA_vs_mphi (filter (\<lambda>r. P_A r \<noteq> NaN) rows) = (mphi_vals, PA_means, PA_stds)
    \<and> (\<forall>float_of r row.
          read_row float_of r = Some row
          \<and> \<not> (r ''P_A'' \<noteq> None \<and> truthy (dict_get r ''P_A'')) \<longrightarrow>
          (\<exists>N_A N_total. py_float float_of (dict_get r ''N_A'') = Some N_A
             \<and> py_float float_of (dict_get r ''N_total'') = Some N_total
             \<and> pos_f N_total \<and> raw_P_A row = div_f N_A N_total
             \<and> (\<forall>a n. N_A = Fin a \<and> N_total = Fin n \<and> 0 \<le> a \<and> a \<le> n \<longrightarrow>
                   raw_P_A row = Fin (a / n) \<and> 0 \<le> a / n \<and> a / n \<le> 1)))"
proof -
  let ?K = "m_phi ` {r \<in> set rows. P_A r \<noteq> NaN}"
  let ?g = "samples_at rows"
  have fin: "finite ?K" by simp
  from assms have mv: "mphi_vals = sorted_list_of_set ?K"
    and pm: "PA_means = map (\<lambda>m. np_mean (?g m)) mphi_vals"
    and ps: "PA_stds = map (\<lambda>m. if length (?g m) > 1 then np_std_ddof1 (?g m) else 0) mphi_vals"
    by (auto simp: compute_PA_vs_mphi_eq Let_def)
  have len: "length PA_means = length mphi_vals" "length PA_stds = length mphi_vals"
    by (simp_all add: pm ps)
  have each: "?g (mphi_vals ! i) \<noteq> []
          \<and> PA_means ! i = sum_list (?g (mphi_vals ! i)) / real (length (?g (mphi_vals ! i)))
          \<and> PA_stds ! i =
               (if length (?g (mphi_vals ! i)) = 1 then 0
                else sqrt (sum_list (map (\<lambda>x. (x - PA_means ! i) ^ 2) (?g (mphi_vals ! i)))
                           / (real (length (?g (mphi_vals ! i))) - 1)))"
    if i: "i < length mphi_vals" for i
  proof -
    let ?m = "mphi_vals ! i"
    have "?m \<in> set mphi_vals" using i by simp
    then have "?m \<in> ?K" using fin by (simp add: mv)
    then have ne: "?g ?m \<noteq> []" by (rule samples_at_nonempty)
    then have pos: "0 < length (?g ?m)" by simp
    have mean: "PA_means ! i = np_mean (?g ?m)"
      using i by (simp add: pm)
    have std: "PA_stds ! i = (if length (?g ?m) > 1 then np_std_ddof1 (?g ?m) else 0)"
      using i by (simp add: ps)
    have one: "length (?g ?m) > 1 \<longleftrightarrow> length (?g ?m) \<noteq> 1" using pos by linarith
    have "1 \<le> length (?g ?m)" using pos by linarith
    then have den: "real (length (?g ?m) - 1) = real (length (?g ?m)) - 1"
      using of_nat_diff [of 1 "length (?g ?m)", where 'a = real] by simp
    have "np_std_ddof1 (?g ?m) =
          sqrt (sum_list (map (\<lambda>x. (x - PA_means ! i) ^ 2) (?g ?m)) / (real (length (?g ?m)) - 1))"
      unfolding np_std_ddof1_def den mean by (simp only: power2_abs)
    with std one have "PA_stds ! i =
               (if length (?g ?m) = 1 then 0
                else sqrt (sum_list (map (\<lambda>x. (x - PA_means ! i) ^ 2) (?g ?m))
                           / (real (length (?g ?m)) - 1)))"
      by simp
    with ne mean show ?thesis by (simp add: np_mean_def)
  qed
  have crit: "mphi_crit_of_rows rnd srt rows = find_mphi_crit rnd srt mphi_vals PA_means TARGET_PA"
    using assms by (simp add: mphi_crit_of_rows_def)
  have nan: "compute_PA_vs_mphi (filter (\<lambda>r. P_A r \<noteq> NaN) rows) = (mphi_vals, PA_means, PA_stds)"
    using assms by (simp add: compute_PA_vs_mphi_drop_NaN)
  have counts: "\<exists>N_A N_total. py_float float_of (dict_get r ''N_A'') = Some N_A
             \<and> py_float float_of (dict_get r ''N_total'') = Some N_total
             \<and> pos_f N_total \<and> raw_P_A row = div_f N_A N_total
             \<and> (\<forall>a n. N_A = Fin a \<and> N_total = Fin n \<and> 0 \<le> a \<and> a \<le> n \<longrightarrow>
                   raw_P_A row = Fin (a / n) \<and> 0 \<le> a / n \<and> a / n \<le> 1)"
    if h: "read_row float_of r = Some row
          \<and> \<not> (r ''P_A'' \<noteq> None \<and> truthy (dict_get r ''P_A''))"
    for float_of r row
  proof -
    from h obtain N_A N_total where c:
      "py_float float_of (dict_get r ''N_A'') = Some N_A"
      "py_float float_of (dict_get r ''N_total'') = Some N_total"
      "pos_f N_total" "raw_P_A row = div_f N_A N_total"
      using read_row_counts [of float_of r row] by blast
    have "raw_P_A row = Fin (a / n) \<and> 0 \<le> a / n \<and> a / n \<le> 1"
      if "N_A = Fin a \<and> N_total = Fin n \<and> 0 \<le> a \<and> a \<le> n" for a n
      using that c(3,4) div_f_unit [of n a] by simp
    with c show ?thesis by blast
  qed
  show ?thesis
    using mv len each crit nan counts by (intro conjI allI impI) blast+
qed

theorem compute_PA_vs_mphi_aggregates_witness:
  "compute_PA_vs_mphi
     [\<lparr>m_phi = 2, k_rot = 0, P_A = Fin (3 / 10)\<rparr>,
      \<lparr>m_phi = 1, k_rot = 0, P_A = Fin (4 / 10)\<rparr>,
      \<lparr>m_phi = 1, k_rot = 0, P_A = NaN\<rparr>,
      \<lparr>m_phi = 1, k_rot = 0, P_A = Fin (5 / 10)\<rparr>,
      \<lparr>m_phi = 1, k_rot = 0, P_A = Fin (6 / 10)\<rparr>] = ([1, 2], [1 / 2, 3 / 10], [1 / 10, 0])
   \<and> mphi_crit_of_rows fl64 stable_argsort
     [\<lparr>m_phi = 2, k_rot = 0, P_A = Fin (3 / 10)\<rparr>,
      \<lparr>m_phi = 1, k_rot = 0, P_A = Fin (4 / 10)\<rparr>,
      \<lparr>m_phi = 1, k_rot = 0, P_A = NaN\<rparr>,
      \<lparr>m_phi = 1, k_rot = 0, P_A = Fin (5 / 10)\<rparr>,
      \<lparr>m_phi = 1, k_rot = 0, P_A = Fin (6 / 10)\<rparr>] =
       find_mphi_crit fl64 stable_argsort [1, 2] [1 / 2, 3 / 10] TARGET_PA
   \<and> read_row digit_float
        [''m_phi'' \<mapsto> Some ''1'', ''N_A'' \<mapsto> Some ''3'', ''N_total'' \<mapsto> Some ''4'']
       = Some \<lparr>raw_m_phi = Fin 1, raw_k_rot = Fin 0, raw_P_A = Fin (3 / 4)\<rparr>
   \<and> (0::real) \<le> 3 / 4 \<and> (3::real) / 4 \<le> 1"
proof -
  let ?rows = "[\<lparr>m_phi = 2, k_rot = 0, P_A = Fin (3 / 10)\<rparr>,
      \<lparr>m_phi = 1, k_rot = 0, P_A = Fin (4 / 10)\<rparr>,
      \<lparr>m_phi = 1, k_rot = 0, P_A = NaN\<rparr>,
      \<lparr>m_phi = 1, k_rot = 0, P_A = Fin (5 / 10)\<rparr>,
      \<lparr>m_phi = 1, k_rot = 0, P_A = Fin (6 / 10)\<rparr>]"
  let ?r = "[''m_phi'' \<mapsto> Some ''1'', ''N_A'' \<mapsto> Some ''3'', ''N_total'' \<mapsto> Some ''4'']"
  let ?row = "\<lparr>raw_m_phi = Fin 1, raw_k_rot = Fin 0, raw_P_A = Fin (3 / 4)\<rparr>"
  have e: "compute_PA_vs_mphi ?rows = ([1, 2], [1 / 2, 3 / 10], [1 / 10, 0])"
    by (simp add: compute_PA_vs_mphi_def group_by_mphi_def dd_get_def np_mean_def
        np_std_ddof1_def Let_def)
  note t = compute_PA_vs_mphi_aggregates [OF e]
  have c: "mphi_crit_of_rows fl64 stable_argsort ?rows =
           find_mphi_crit fl64 stable_argsort [1, 2] [1 / 2, 3 / 10] TARGET_PA"
    using t [of fl64 stable_argsort] by blast
  have r: "read_row digit_float ?r = Some ?row"
    by (simp add: read_row_def digit_float_def py_float_def dict_get_def truthy_def pos_f_def
        div_f_def Let_def)
  have h: "read_row digit_float ?r = Some ?row
           \<and> \<not> (?r ''P_A'' \<noteq> None \<and> truthy (dict_get ?r ''P_A''))"
    using r by simp
  have na: "py_float digit_float (dict_get ?r ''N_A'') = Some (Fin 3)"
    and nt: "py_float digit_float (dict_get ?r ''N_total'') = Some (Fin 4)"
    by (simp_all add: digit_float_def py_float_def dict_get_def)
  from t [of fl64 stable_argsort] h obtain N_A N_total where o:
      "py_float digit_float (dict_get ?r ''N_A'') = Some N_A"
      "py_float digit_float (dict_get ?r ''N_total'') = Some N_total"
      "\<forall>a n. N_A = Fin a \<and> N_total = Fin n \<and> 0 \<le> a \<and> a \<le> n \<longrightarrow>
             raw_P_A ?row = Fin (a / n) \<and> 0 \<le> a / n \<and> a / n \<le> 1"
    by blast
  have "N_A = Fin 3" "N_total = Fin 4" using o(1,2) na nt by simp_all
  then have u: "(0::real) \<le> 3 / 4 \<and> (3::real) / 4 \<le> 1" using o(3) by simp
  show ?thesis using e c r u by simp
qed

text \<open>
  Claim C7 as the specification states it fails on the reader: the counts \<open>N_A = 5\<close>
  and \<open>N_total = 4\<close> are read without complaint and give the response 1.25.
\<close>

theorem read_row_counts_above_one:
  "read_row digit_float
     [''m_phi'' \<mapsto> Some ''1'', ''N_A'' \<mapsto> Some ''5'', ''N_total'' \<mapsto> Some ''4'']
    = Some \<lparr>raw_m_phi = Fin 1, raw_k_rot = Fin 0, raw_P_A = Fin (5 / 4)\<rparr>
   \<and> (1::real) < 5 / 4"
  by (simp add: read_row_def digit_float_def py_float_def dict_get_def truthy_def pos_f_def
      div_f_def Let_def)

subsection \<open>The parameter sweep\<close>

lemma scan_loop_all_rows:
  assumes "length rs = length pts"
    and "\<And>i. i < length pts \<Longrightarrow> scan_point solve_ivp (pts ! i) = Inr (rs ! i)"
  shows "scan_loop solve_ivp (pts @ rest) rows = scan_loop solve_ivp rest (rows @ rs)"
  using assms
proof (induction pts arbitrary: rs rows)
  case Nil
  then show ?case by simp
next
  case (Cons p pts)
  from Cons.prems(1) obtain r rs' where rs: "rs = r # rs'" and len: "length rs' = length pts"
    by (cases rs) auto
  have hd: "scan_point solve_ivp p = Inr r"
    using Cons.prems(2) [of 0] by (simp add: rs)
  have tl: "scan_point solve_ivp (pts ! i) = Inr (rs' ! i)" if "i < length pts" for i
    using Cons.prems(2) [of "Suc i"] that by (simp add: rs)
  have "scan_loop solve_ivp (pts @ rest) (rows @ [r]) = scan_loop solve_ivp rest ((rows @ [r]) @ rs')"
    using len tl by (rule Cons.IH)
  then show ?case by (simp add: hd rs)
qed

text \<open>What one pass of the loop body does with the three kinds of answer of the integrator.\<close>

lemma scan_point_raise:
  assumes "solve_ivp (m, k, q, 1) (d, 0) (1 / 1000, 10) 2000 = Inl e"
  shows "scan_point solve_ivp (m, k, q, d) = Inl e"
  using assms by (simp add: scan_point_def run_phase_evolution_def Let_def)

lemma scan_point_no_rows:
  assumes "solve_ivp (m, k, q, 1) (d, 0) (1 / 1000, 10) 2000 = Inr sol"
    and "length (sol_y sol) < 2"
  shows "scan_point solve_ivp (m, k, q, d) = Inl IndexError"
proof (cases "sol_y sol")
  case Nil
  then show ?thesis
    using assms(1) by (simp add: scan_point_def run_phase_evolution_def Let_def)
next
  case (Cons row0 ys)
  then have "ys = []" using assms(2) by (cases ys) simp_all
  then show ?thesis
    using assms(1) Cons by (simp add: scan_point_def run_phase_evolution_def Let_def)
qed

lemma scan_point_row:
  assumes "solve_ivp (m, k, q, 1) (d, 0) (1 / 1000, 10) 2000 = Inr sol"
    and "sol_y sol = row0 # row1 # others"
  shows "scan_point solve_ivp (m, k, q, d) = Inr (make_row (m, k, q, d) (sol_t sol) row0)"
  using assms by (simp add: scan_point_def run_phase_evolution_def Let_def)

text \<open>
  Claim C5, as the code has it. One pass of the loop body raises when the integrator
  raises, and with IndexError when the integrator returns fewer than the two rows of
  \<open>y\<close> (an integration that failed before its first evaluation point); otherwise it
  writes a row built from the points the integrator returned, whatever the success flag
  says. A pass that raises ends the sweep there: the rows of the grid points before it
  are the result, the failed point and the grid points after it get no row, and the
  sweep ends with the exception. When no pass raises, every grid point gets its row.
\<close>

theorem scan_loop_stops_at_exception:
  "(length rs = length pts
      \<and> (\<forall>i<length pts. scan_point solve_ivp (pts ! i) = Inr (rs ! i))
      \<and> scan_point solve_ivp point = Inl e \<longrightarrow>
    scan_loop solve_ivp (pts @ point # rest) [] = (rs, Some e))
   \<and> (length rs = length pts
      \<and> (\<forall>i<length pts. scan_point solve_ivp (pts ! i) = Inr (rs ! i)) \<longrightarrow>
    scan_loop solve_ivp pts [] = (rs, None))
   \<and> (solve_ivp (m, k, q, 1) (d, 0) (1 / 1000, 10) 2000 = Inl e' \<longrightarrow>
    scan_point solve_ivp (m, k, q, d) = Inl e')
   \<and> (solve_ivp (m, k, q, 1) (d, 0) (1 / 1000, 10) 2000 = Inr sol
      \<and> length (sol_y sol) < 2 \<longrightarrow>
    scan_point solve_ivp (m, k, q, d) = Inl IndexError)
   \<and> (solve_ivp (m, k, q, 1) (d, 0) (1 / 1000, 10) 2000 = Inr sol
      \<and> sol_y sol = row0 # row1 # others \<longrightarrow>
    scan_point solve_ivp (m, k, q, d) = Inr (make_row (m, k, q, d) (sol_t sol) row0))"
proof (intro conjI impI)
  assume h: "length rs = length pts
      \<and> (\<forall>i<length pts. scan_point solve_ivp (pts ! i) = Inr (rs ! i))
      \<and> scan_point solve_ivp point = Inl e"
  then have "scan_loop solve_ivp (pts @ point # rest) [] =
             scan_loop solve_ivp (point # rest) ([] @ rs)"
    by (intro scan_loop_all_rows) auto
  then show "scan_loop solve_ivp (pts @ point # rest) [] = (rs, Some e)"
    using h by simp
next
  assume h: "length rs = length pts
      \<and> (\<forall>i<length pts. scan_point solve_ivp (pts ! i) = Inr (rs ! i))"
  then have "scan_loop solve_ivp (pts @ []) [] = scan_loop solve_ivp [] ([] @ rs)"
    by (intro scan_loop_all_rows) auto
  then show "scan_loop solve_ivp pts [] = (rs, None)" by simp
next
  assume "solve_ivp (m, k, q, 1) (d, 0) (1 / 1000, 10) 2000 = Inl e'"
  then show "scan_point solve_ivp (m, k, q, d) = Inl e'" by (rule scan_point_raise)
next
  assume "solve_ivp (m, k, q, 1) (d, 0) (1 / 1000, 10) 2000 = Inr sol \<and> length (sol_y sol) < 2"
  then show "scan_point solve_ivp (m, k, q, d) = Inl IndexError"
    using scan_point_no_rows by blast
next
  assume "solve_ivp (m, k, q, 1) (d, 0) (1 / 1000, 10) 2000 = Inr sol
          \<and> sol_y sol = row0 # row1 # others"
  then show "scan_point solve_ivp (m, k, q, d) =
             Inr (make_row (m, k, q, d) (sol_t sol) row0)"
    using scan_point_row by blast
qed

lemma classify_short: "length arr < 50 \<Longrightarrow> classify_phase_trajectory arr = ''C''"
  by (simp add: classify_phase_trajectory_def)

lemma make_row_truncated:
  "make_row (1 / 2, 0, 1, 1 / 100) [1 / 1000, 1 / 500] [1 / 100, 1 / 100] =
     \<lparr>row_m_phi = 1 / 2, row_k_rot = 0, row_q = 1, row_delta_phi_ini = 1 / 100,
      row_sector = ''C'', row_phi_mean_tail = Fin (1 / 100), row_phi_std_tail = Fin 0\<rparr>"
proof -
  have t: "tail_start (Suc (Suc 0)) = Suc 0"
    by (simp add: tail_start_div)
  have "2 \<le> pi" by (rule pi_ge_two)
  then have m: "np_mod (1 / 100) (2 * pi) = 1 / 100"
    by (intro np_mod_id) simp_all
  show ?thesis
    by (simp add: make_row_def t m py_mean_def py_std_def np_mean_def np_std_def classify_short)
qed

theorem scan_loop_stops_at_exception_witness:
  "scan_loop raising_solver [(1 / 2, 0, 1, 1 / 100), (1 / 5, 0, 1, 1 / 100), (1, 0, 1, 1 / 100)] []
       = ([make_row (1 / 2, 0, 1, 1 / 100) (replicate 50 1) (replicate 50 0)], Some IntegrationError)
   \<and> scan_loop truncated_solver [(1 / 2, 0, 1, 1 / 100)] []
       = ([\<lparr>row_m_phi = 1 / 2, row_k_rot = 0, row_q = 1, row_delta_phi_ini = 1 / 100,
            row_sector = ''C'', row_phi_mean_tail = Fin (1 / 100), row_phi_std_tail = Fin 0\<rparr>],
          None)
   \<and> scan_point stalled_solver (1 / 2, 0, 1, 1 / 100) = Inl IndexError
   \<and> scan_loop stalled_solver [(1 / 2, 0, 1, 1 / 100), (1, 0, 1, 1 / 100)] []
       = ([], Some IndexError)"
proof -
  let ?p = "(1 / 2, 0, 1, 1 / 100) :: real \<times> real \<times> real \<times> real"
  let ?f = "(1 / 5, 0, 1, 1 / 100) :: real \<times> real \<times> real \<times> real"
  let ?q = "(1, 0, 1, 1 / 100) :: real \<times> real \<times> real \<times> real"
  let ?r = "make_row ?p (replicate 50 1) (replicate 50 0)"
  let ?ok = "\<lparr>sol_t = replicate 50 1, sol_y = [replicate 50 0, replicate 50 0],
              sol_success = True\<rparr>"
  let ?tr = "\<lparr>sol_t = [1 / 1000, 1 / 500], sol_y = [[1 / 100, 1 / 100], [0, 0]],
              sol_success = False\<rparr>"
  let ?st = "\<lparr>sol_t = [], sol_y = [] :: real list list, sol_success = False\<rparr>"
  note t = scan_loop_stops_at_exception
  have a: "scan_point raising_solver ?p = Inr ?r"
    using t [of _ _ raising_solver _ _ _ "1 / 2" 0 1 "1 / 100" _ ?ok
        "replicate 50 0" "replicate 50 0" "[]"]
    by (simp add: raising_solver_def)
  have b: "scan_point raising_solver ?f = Inl IntegrationError"
    using t [of _ _ raising_solver _ _ _ "1 / 5" 0 1 "1 / 100" IntegrationError]
    by (simp add: raising_solver_def)
  have pre: "length [?r] = length [?p]
      \<and> (\<forall>i<length [?p]. scan_point raising_solver ([?p] ! i) = Inr ([?r] ! i))
      \<and> scan_point raising_solver ?f = Inl IntegrationError"
    using a b by simp
  have c: "scan_loop raising_solver ([?p] @ ?f # [?q]) [] = ([?r], Some IntegrationError)"
    using t [of "[?r]" "[?p]" raising_solver ?f IntegrationError "[?q]"] pre by blast
  let ?s = "\<lparr>row_m_phi = 1 / 2, row_k_rot = 0, row_q = 1, row_delta_phi_ini = 1 / 100,
            row_sector = ''C'', row_phi_mean_tail = Fin (1 / 100), row_phi_std_tail = Fin 0\<rparr>"
  have d: "scan_point truncated_solver ?p = Inr ?s"
    using t [of _ _ truncated_solver _ _ _ "1 / 2" 0 1 "1 / 100" _ ?tr
        "[1 / 100, 1 / 100]" "[0, 0]" "[]"]
    by (simp add: truncated_solver_def make_row_truncated)
  have pre2: "length [?s] = length [?p]
      \<and> (\<forall>i<length [?p]. scan_point truncated_solver ([?p] ! i) = Inr ([?s] ! i))"
    using d by simp
  have e: "scan_loop truncated_solver [?p] [] = ([?s], None)"
    using t [of "[?s]" "[?p]" truncated_solver] pre2 by blast
  have f: "scan_point stalled_solver ?p = Inl IndexError"
    using t [of _ _ stalled_solver _ _ _ "1 / 2" 0 1 "1 / 100" _ ?st]
    by (simp add: stalled_solver_def)
  have pre3: "length ([] :: summary_row list) = length ([] :: (real \<times> real \<times> real \<times> real) list)
      \<and> (\<forall>i<length ([] :: (real \<times> real \<times> real \<times> real) list).
            scan_point stalled_solver ([] ! i) = Inr ([] ! i))
      \<and> scan_point stalled_solver ?p = Inl IndexError"
    using f by simp
  have g: "scan_loop stalled_solver ([] @ ?p # [?q]) [] = ([], Some IndexError)"
    using t [of "[]" "[]" stalled_solver ?p IndexError "[?q]"] pre3 by blast
  show ?thesis using c e f g by simp
qed

text \<open>
  Claim C5 as the specification states it fails on the script in two ways. With an
  integrator that raises at \<open>m_phi = 0.2\<close>, the first value of the grid, the sweep
  writes no row at all, although the integration at \<open>m_phi = 0.5\<close> returns a
  trajectory. And an integration that stops after two points and reports its failure in
  the flag of the solution gets an ordinary row: nothing in it or beside it says that
  the integration failed.
\<close>

theorem phase_sector_scan_aborts:
  "phase_sector_scan raising_solver = ([], Some IntegrationError)
   \<and> run_phase_evolution raising_solver 0.5 0 1 0.01 0 (1 / 1000) 10 2000 =
       Inr (replicate 50 1, replicate 50 0, replicate 50 0)
   \<and> truncated_solver (1 / 2, 0, 1, 1) (1 / 100, 0) (1 / 1000, 10) 2000 =
       Inr \<lparr>sol_t = [1 / 1000, 1 / 500], sol_y = [[1 / 100, 1 / 100], [0, 0]],
            sol_success = False\<rparr>
   \<and> scan_loop truncated_solver [(1 / 2, 0, 1, 1 / 100)] []
       = ([\<lparr>row_m_phi = 1 / 2, row_k_rot = 0, row_q = 1, row_delta_phi_ini = 1 / 100,
            row_sector = ''C'', row_phi_mean_tail = Fin (1 / 100), row_phi_std_tail = Fin 0\<rparr>],
          None)"
  by (simp add: phase_sector_scan_def grid_points_def m_phi_list_def k_rot_list_def q_list_def
      delta_phi_ini_list_def scan_point_def run_phase_evolution_def raising_solver_def
      truncated_solver_def make_row_truncated)

subsection \<open>Shifts by whole periods\<close>


















end
